theory Spec2Isabelle
  imports Complex_Main "HOL-Library.List_Lexorder" "HOL-Library.Multiset"
begin

section \<open>Strings, substring tests and the regular expressions of the scraper\<close>

text \<open>
  A Python \<open>str\<close> is a sequence of Unicode code points; it is modelled as a list of
  natural numbers. ASCII literals of the source are written through \<open>ascii\<close>, Korean
  literals as their code points.
\<close>

type_synonym ustr = "nat list"

definition ascii :: "string \<Rightarrow> ustr" where
  "ascii s = map of_char s"

fun starts_with :: "ustr \<Rightarrow> ustr \<Rightarrow> bool" where
  "starts_with [] t = True"
| "starts_with (k # ks) [] = False"
| "starts_with (k # ks) (c # cs) = (k = c \<and> starts_with ks cs)"

text \<open>Python's \<open>k in text\<close> for strings: \<open>k\<close> occurs as a contiguous substring.\<close>

fun contains :: "ustr \<Rightarrow> ustr \<Rightarrow> bool" where
  "contains k [] = (k = [])"
| "contains k (c # cs) = (starts_with k (c # cs) \<or> contains k cs)"

text \<open>
  The class \<open>\s\<close> of \<open>re\<close> on \<open>str\<close> patterns: the code points for which
  \<open>str.isspace\<close> holds.
\<close>

definition isspace :: "nat \<Rightarrow> bool" where
  "isspace c = ((9 \<le> c \<and> c \<le> 13) \<or> (28 \<le> c \<and> c \<le> 32) \<or> c = 133 \<or> c = 160
     \<or> c = 5760 \<or> (8192 \<le> c \<and> c \<le> 8202) \<or> c = 8232 \<or> c = 8233 \<or> c = 8239
     \<or> c = 8287 \<or> c = 12288)"

text \<open>
  The class \<open>\d\<close> and the conversion \<open>int(...)\<close> both read the Unicode table of decimal
  digits (category Nd) of the running interpreter. That table is not part of the
  repository; it is the parameter \<open>dec\<close>, giving the digit value of a code point, if any.
\<close>

type_synonym decimal_table = "nat \<Rightarrow> nat option"

definition ascii_decimal :: decimal_table where
  "ascii_decimal c = (if 48 \<le> c \<and> c \<le> 57 then Some (c - 48) else None)"

definition isdecimal :: "decimal_table \<Rightarrow> nat \<Rightarrow> bool" where
  "isdecimal dec c = (dec c \<noteq> None)"

text \<open>
  Exceptions are values. \<open>TypeError\<close> is singled out by \<open>fetch\<close>; the others are
  subclasses of \<open>Exception\<close> that the source treats alike.
\<close>

datatype exn =
    TypeError
  | Timeout
  | ConnectionError
  | HTTPError nat
  | OverflowError
  | ZeroDivisionError
  | ValueError
  | OtherException nat

text \<open>The number that a string of decimal digits denotes.\<close>

definition digits_value :: "decimal_table \<Rightarrow> ustr \<Rightarrow> int" where
  "digits_value dec s =
     foldl (\<lambda>acc c. 10 * acc + int (case dec c of Some d \<Rightarrow> d | None \<Rightarrow> 0)) 0 s"

text \<open>
  \<open>int(s)\<close> on a string of decimal digits. The interpreter refuses a string of more
  than \<open>sys.int_max_str_digits\<close> digits, leading zeros included, with \<open>ValueError\<close>;
  the source leaves that limit at its default of 4300.
\<close>

definition INT_MAX_STR_DIGITS :: nat where
  "INT_MAX_STR_DIGITS = 4300"

definition py_int :: "decimal_table \<Rightarrow> ustr \<Rightarrow> exn + int" where
  "py_int dec s =
     (if INT_MAX_STR_DIGITS < length s then Inl ValueError else Inr (digits_value dec s))"

text \<open>
  The patterns the source hands to \<open>re.search\<close> are sequences of literals and greedy
  repetitions of one character class, with one capture group around a repetition.
  \<open>rmatch\<close> matches such a sequence at the start of a text with the backtracking of
  \<open>re\<close> (a greedy repetition takes the longest run first and gives characters back when
  the rest fails) and returns the captured text; \<open>rsearch\<close> tries every start position
  from left to right, as \<open>re.search\<close> does.
\<close>

datatype item =
    Lit ustr
  | Star "nat \<Rightarrow> bool"
  | Plus "nat \<Rightarrow> bool"
  | GStar "nat \<Rightarrow> bool"
  | GPlus "nat \<Rightarrow> bool"

fun rmatch :: "item list \<Rightarrow> ustr \<Rightarrow> ustr \<Rightarrow> ustr option" where
  "rmatch [] t cap = Some cap"
| "rmatch (Lit l # r) t cap =
     (if starts_with l t then rmatch r (drop (length l) t) cap else None)"
| "rmatch (Star c # r) [] cap = rmatch r [] cap"
| "rmatch (Star c # r) (x # xs) cap =
     (if c x then
        (case rmatch (Star c # r) xs cap of
           Some g \<Rightarrow> Some g
         | None \<Rightarrow> rmatch r (x # xs) cap)
      else rmatch r (x # xs) cap)"
| "rmatch (Plus c # r) [] cap = None"
| "rmatch (Plus c # r) (x # xs) cap =
     (if c x then rmatch (Star c # r) xs cap else None)"
| "rmatch (GStar c # r) [] cap = rmatch r [] cap"
| "rmatch (GStar c # r) (x # xs) cap =
     (if c x then
        (case rmatch (GStar c # r) xs (cap @ [x]) of
           Some g \<Rightarrow> Some g
         | None \<Rightarrow> rmatch r (x # xs) cap)
      else rmatch r (x # xs) cap)"
| "rmatch (GPlus c # r) [] cap = None"
| "rmatch (GPlus c # r) (x # xs) cap =
     (if c x then rmatch (GStar c # r) xs (cap @ [x]) else None)"

fun rsearch :: "item list \<Rightarrow> ustr \<Rightarrow> ustr option" where
  "rsearch pat [] = rmatch pat [] []"
| "rsearch pat (x # xs) =
     (case rmatch pat (x # xs) [] of
        Some g \<Rightarrow> Some g
      | None \<Rightarrow> rsearch pat xs)"

section \<open>Pages and the fetch client\<close>

text \<open>
  \<open>requests\<close> and \<open>BeautifulSoup\<close> are libraries outside the repository. A parsed page
  is modelled by what the selectors of the source return on it:
  \<^item> \<open>proposer_onclick\<close>: the \<open>onclick\<close> attribute of the first \<open>a.icon_list\<close> whose
    \<open>onclick\<close> matches \<open>Navigation\.bill\.popup\.billProposer\<close>, if there is one;
  \<^item> \<open>li_member_hrefs\<close>: the \<open>href\<close>s selected by
    \<open>ul.member_list_img li a[href*='assembly.go.kr/members']\<close>;
  \<^item> \<open>member_hrefs\<close>: the \<open>href\<close>s selected by
    \<open>ul.member_list_img a[href*='assembly.go.kr/members']\<close>, in document order;
  \<^item> \<open>jdang_texts\<close>: the stripped texts of \<open>ul.member_list_img p.jdang\<close>;
  \<^item> \<open>pager_pages_text\<close>: the \<open>value\<close> of \<open>input#pager_pages_text\<close>, absent when the
    element or the attribute is;
  \<^item> \<open>paging_onclicks\<close>: \<open>a.get("onclick", "")\<close> of each \<open>.paging-navigation a.number\<close>;
  \<^item> \<open>dd_text\<close>: the text of the \<open>dd\<close> that follows the \<open>dt\<close> with string
    \<open>"\<dots>"\<close> (the election-count label), absent when either element is;
  \<^item> \<open>new_dl_text\<close>: the text of \<open>.jeonzik_left_info .profile_info dl\<close>, if present.
\<close>

record soup =
  proposer_onclick :: "ustr option"
  li_member_hrefs :: "ustr list"
  member_hrefs :: "ustr list"
  jdang_texts :: "ustr list"
  pager_pages_text :: "ustr option"
  paging_onclicks :: "ustr list"
  dd_text :: "ustr option"
  new_dl_text :: "ustr option"

record response =
  status_code :: nat
  page :: soup

text \<open>
  A request is \<open>SESSION.get\<close> on a URL, with the cache enabled or disabled. The network
  and the cache are an environment that answers each request, possibly depending on all
  requests made before; the state of the program's world is the list of requests made so
  far. The pauses (\<open>time.sleep\<close>) have no effect on results and are left out.
\<close>

type_synonym request = "bool \<times> ustr"

type_synonym env = "request list \<Rightarrow> request \<Rightarrow> exn + response"

definition session_get ::
  "env \<Rightarrow> bool \<Rightarrow> ustr \<Rightarrow> request list \<Rightarrow> (exn + response) \<times> request list" where
  "session_get env cached url tr = (env tr (cached, url), tr @ [(cached, url)])"

text \<open>\<open>Response.raise_for_status\<close>: an \<open>HTTPError\<close> for a 4xx or 5xx status.\<close>

definition raise_for_status :: "response \<Rightarrow> exn + response" where
  "raise_for_status resp =
     (if 400 \<le> status_code resp \<and> status_code resp < 600
      then Inl (HTTPError (status_code resp)) else Inr resp)"

text \<open>One pass through the \<open>try\<close> body of \<open>fetch\<close>: the request, then the status check.\<close>

definition get_checked ::
  "env \<Rightarrow> bool \<Rightarrow> ustr \<Rightarrow> request list \<Rightarrow> (exn + response) \<times> request list" where
  "get_checked env cached url tr =
     (case session_get env cached url tr of
        (Inl e, tr') \<Rightarrow> (Inl e, tr')
      | (Inr resp, tr') \<Rightarrow> (raise_for_status resp, tr'))"

definition RETRY :: int where
  "RETRY = 3"

text \<open>
  The loop \<open>for attempt in range(1, retry + 1)\<close> of \<open>fetch\<close>, over the attempts that are
  left. \<open>raise last_err\<close> with \<open>last_err = None\<close> is a \<open>TypeError\<close> in Python.
\<close>

fun fetch_attempts ::
  "env \<Rightarrow> bool \<Rightarrow> ustr \<Rightarrow> int list \<Rightarrow> exn option \<Rightarrow> request list
     \<Rightarrow> (exn + response) \<times> request list" where
  "fetch_attempts env use_cache url [] last_err tr =
     (Inl (case last_err of None \<Rightarrow> TypeError | Some e \<Rightarrow> e), tr)"
| "fetch_attempts env use_cache url (attempt # rest) last_err tr =
     (case get_checked env use_cache url tr of
        (Inr resp, tr1) \<Rightarrow> (Inr resp, tr1)
      | (Inl e, tr1) \<Rightarrow>
          if e = TypeError then get_checked env False url tr1
          else fetch_attempts env use_cache url rest (Some e) tr1)"

definition fetch ::
  "env \<Rightarrow> int \<Rightarrow> bool \<Rightarrow> ustr \<Rightarrow> request list \<Rightarrow> (exn + response) \<times> request list" where
  "fetch env retry use_cache url tr = fetch_attempts env use_cache url [1..retry] None tr"

section \<open>Seniority of a member\<close>

definition KOR_SEN_MAP :: "(ustr \<times> int) list" where
  "KOR_SEN_MAP =
     [([52488, 49440], 1), ([51116, 49440], 2), ([49340, 49440], 3), ([49324, 49440], 4),
      ([50724, 49440], 5), ([50977, 49440], 6), ([52832, 49440], 7), ([54036, 49440], 8),
      ([44396, 49440], 9), ([49901, 49440], 10)]"

text \<open>The markers of the 21st and the 22nd assembly, as they appear in a profile.\<close>

definition marker_21 :: ustr where
  "marker_21 = [51228, 50, 49, 45824]"

definition marker_22 :: ustr where
  "marker_22 = [51228, 50, 50, 45824]"

text \<open>
  The text of the profile: the old layout first, the new layout when the old one gives
  no text.
\<close>

definition profile_text :: "soup \<Rightarrow> ustr" where
  "profile_text s =
     (let text = (case dd_text s of Some t \<Rightarrow> t | None \<Rightarrow> [])
      in if text = [] then (case new_dl_text s of Some t \<Rightarrow> t | None \<Rightarrow> []) else text)"

text \<open>
  The raw term count: the pattern \<open>(\d+)\s*\<dots>\<close> with the syllable \<open>seon\<close> (49440), and
  otherwise the first key of \<open>KOR_SEN_MAP\<close>, in the order of the dictionary, that occurs
  in the text. When the pattern matches, \<open>int\<close> is applied to the digits and may raise.
\<close>

definition raw_seniority :: "decimal_table \<Rightarrow> ustr \<Rightarrow> exn + int option" where
  "raw_seniority dec text =
     (case rsearch [GPlus (isdecimal dec), Star isspace, Lit [49440]] text of
        Some g \<Rightarrow> (case py_int dec g of Inl e \<Rightarrow> Inl e | Inr n \<Rightarrow> Inr (Some n))
      | None \<Rightarrow> Inr (map_option snd (find (\<lambda>(k, v). contains k text) KOR_SEN_MAP)))"

text \<open>The adjustment by the assemblies that lie in the future of \<open>base_assembly\<close>.\<close>

definition adjust_seniority :: "ustr \<Rightarrow> int \<Rightarrow> int \<Rightarrow> int" where
  "adjust_seniority text seniority base_assembly =
     (let has_21 = contains marker_21 text;
          has_22 = contains marker_22 text;
          future_terms =
            (if base_assembly \<le> 20 then
               (let f1 = (if has_21 then 0 + 1 else 0) in (if has_22 then f1 + 1 else f1))
             else if base_assembly = 21 then (if has_22 then 0 + 1 else 0)
             else 0);
          adjusted = seniority - future_terms
      in if adjusted < 1 then 1 else adjusted)"

text \<open>
  \<open>parse_member_seniority\<close>: the page is fetched without the cache; any exception gives
  \<open>None\<close>, as do an empty text and a text without a term count.
\<close>

definition parse_member_seniority ::
  "decimal_table \<Rightarrow> env \<Rightarrow> ustr \<Rightarrow> int \<Rightarrow> request list \<Rightarrow> int option \<times> request list" where
  "parse_member_seniority dec env member_url base_assembly tr =
     (case fetch env RETRY False member_url tr of
        (Inl e, tr') \<Rightarrow> (None, tr')
      | (Inr resp, tr') \<Rightarrow>
          (let text = profile_text (page resp) in
           if text = [] then (None, tr')
           else (case raw_seniority dec text of
                   Inl e \<Rightarrow> (None, tr')
                 | Inr None \<Rightarrow> (None, tr')
                 | Inr (Some seniority) \<Rightarrow>
                     (Some (adjust_seniority text seniority base_assembly), tr'))))"

section \<open>The proposer popup: its URL, its pages, its members\<close>

text \<open>
  \<open>str(n)\<close> for an integer, as an f-string formats a page number. A page number is
  at most the page count, which \<open>int\<close> has accepted, so it has at most 4300 digits and
  the limit of the conversion to a string is not reached.
\<close>

fun digits_of :: "nat \<Rightarrow> ustr" where
  "digits_of n = (if n < 10 then [48 + n] else digits_of (n div 10) @ [48 + n mod 10])"

declare digits_of.simps [simp del]

definition py_str :: "int \<Rightarrow> ustr" where
  "py_str i = (if i < 0 then 45 # digits_of (nat (- i)) else digits_of (nat i))"

definition detail_url :: "ustr \<Rightarrow> ustr" where
  "detail_url bill_id =
     ascii ''https://likms.assembly.go.kr/bill/bi/billDetailPage.do?billId='' @ bill_id"

definition minimal_popup_url :: "ustr \<Rightarrow> ustr" where
  "minimal_popup_url bill_id =
     ascii ''https://likms.assembly.go.kr/bill/bi/popup/billProposer.do?billId='' @ bill_id"

text \<open>
  The patterns \<open>billNo:\s*'([^']+)'\<close> and \<open>billName:\s*'([^']*)'\<close>; the quote is code
  point 39.
\<close>

definition pat_bill_no :: "item list" where
  "pat_bill_no = [Lit (ascii ''billNo:''), Star isspace, Lit [39], GPlus (\<lambda>c. c \<noteq> 39), Lit [39]]"

definition pat_bill_name :: "item list" where
  "pat_bill_name =
     [Lit (ascii ''billName:''), Star isspace, Lit [39], GStar (\<lambda>c. c \<noteq> 39), Lit [39]]"

definition build_proposer_popup_url_from_detail ::
  "env \<Rightarrow> ustr \<Rightarrow> request list \<Rightarrow> (exn + ustr) \<times> request list" where
  "build_proposer_popup_url_from_detail env bill_id tr =
     (case fetch env RETRY True (detail_url bill_id) tr of
        (Inl e, tr') \<Rightarrow> (Inl e, tr')
      | (Inr resp, tr') \<Rightarrow>
          (case proposer_onclick (page resp) of
             Some onclick \<Rightarrow>
               (let bill_no = (case rsearch pat_bill_no onclick of Some g \<Rightarrow> g | None \<Rightarrow> []);
                    bill_nm = (case rsearch pat_bill_name onclick of Some g \<Rightarrow> g | None \<Rightarrow> []);
                    pop_url0 =
                      ascii ''https://likms.assembly.go.kr/bill/bi/popup/billProposer.do?''
                        @ ascii ''billId='' @ bill_id;
                    pop_url1 =
                      (if bill_no \<noteq> [] then pop_url0 @ ascii ''&billNo='' @ bill_no
                       else pop_url0);
                    pop_url2 =
                      (if bill_nm \<noteq> [] then pop_url1 @ ascii ''&billName='' @ bill_nm
                       else pop_url1)
                in (Inr pop_url2, tr'))
           | None \<Rightarrow> (Inr (minimal_popup_url bill_id), tr')))"

definition candidates :: "ustr list" where
  "candidates =
     [ascii ''pageIndex'', ascii ''pageNo'', ascii ''page'', ascii ''currPage'',
      ascii ''pageNum'']"

definition page_url :: "ustr \<Rightarrow> ustr \<Rightarrow> int \<Rightarrow> ustr" where
  "page_url base_url p pg = base_url @ [38] @ p @ [61] @ py_str pg"

text \<open>
  The loop of \<open>proposer_soup\<close> over the candidates that are left: a candidate whose fetch
  raises, or whose page shows no member list, is passed over; after the last one the
  base URL itself is fetched, and a fault of that fetch is raised to the caller.
\<close>

fun try_candidates ::
  "env \<Rightarrow> ustr \<Rightarrow> int \<Rightarrow> ustr list \<Rightarrow> request list \<Rightarrow> (exn + soup) \<times> request list" where
  "try_candidates env base_url pg [] tr =
     (case fetch env RETRY True base_url tr of
        (Inl e, tr') \<Rightarrow> (Inl e, tr')
      | (Inr resp, tr') \<Rightarrow> (Inr (page resp), tr'))"
| "try_candidates env base_url pg (p # ps) tr =
     (case fetch env RETRY True (page_url base_url p pg) tr of
        (Inl e, tr') \<Rightarrow> try_candidates env base_url pg ps tr'
      | (Inr resp, tr') \<Rightarrow>
          if li_member_hrefs (page resp) \<noteq> [] then (Inr (page resp), tr')
          else try_candidates env base_url pg ps tr')"

definition proposer_soup ::
  "env \<Rightarrow> ustr \<Rightarrow> ustr \<Rightarrow> int \<Rightarrow> request list \<Rightarrow> (exn + soup) \<times> request list" where
  "proposer_soup env bill_id base_url pg tr = try_candidates env base_url pg candidates tr"

text \<open>
  The patterns \<open>/\s*(\d+)\s*\<dots>\<close>, ending in the three syllables of the word for
  page (54168, 51060, 51648), and \<open>fnSearch\((\d+)\)\<close>.
\<close>

definition pat_pages :: "decimal_table \<Rightarrow> item list" where
  "pat_pages dec =
     [Lit [47], Star isspace, GPlus (isdecimal dec), Star isspace, Lit [54168, 51060, 51648]]"

definition pat_fn_search :: "decimal_table \<Rightarrow> item list" where
  "pat_fn_search dec = [Lit (ascii ''fnSearch(''), GPlus (isdecimal dec), Lit [41]]"

text \<open>
  The loop that gathers the page numbers named by the navigation links, in document
  order; \<open>int\<close> may raise on one of them, which ends the loop.
\<close>

fun nav_numbers_loop :: "decimal_table \<Rightarrow> ustr list \<Rightarrow> int list \<Rightarrow> exn + int list" where
  "nav_numbers_loop dec [] nums = Inr nums"
| "nav_numbers_loop dec (onclick # rest) nums =
     (case rsearch (pat_fn_search dec) onclick of
        Some g \<Rightarrow>
          (case py_int dec g of
             Inl e \<Rightarrow> Inl e
           | Inr n \<Rightarrow> nav_numbers_loop dec rest (nums @ [n]))
      | None \<Rightarrow> nav_numbers_loop dec rest nums)"

definition nav_numbers :: "decimal_table \<Rightarrow> soup \<Rightarrow> exn + int list" where
  "nav_numbers dec s = nav_numbers_loop dec (paging_onclicks s) []"

text \<open>\<open>max\<close> of a non-empty list.\<close>

definition py_max :: "int list \<Rightarrow> int" where
  "py_max nums = foldl max (hd nums) (tl nums)"

text \<open>The second part of \<open>parse_total_pages\<close>: the greatest page number of a link, or 1.\<close>

definition pages_from_navigation :: "decimal_table \<Rightarrow> soup \<Rightarrow> exn + int" where
  "pages_from_navigation dec s =
     (case nav_numbers dec s of
        Inl e \<Rightarrow> Inl e
      | Inr nums \<Rightarrow> Inr (if nums \<noteq> [] then py_max nums else 1))"

text \<open>
  \<open>parse_total_pages\<close>: the hidden pager value first, the navigation links when it is
  absent or does not match. A \<open>ValueError\<close> of \<open>int\<close> is raised to the caller.
\<close>

definition parse_total_pages :: "decimal_table \<Rightarrow> soup \<Rightarrow> exn + int" where
  "parse_total_pages dec s =
     (case pager_pages_text s of
        Some v \<Rightarrow>
          (case rsearch (pat_pages dec) v of
             Some g \<Rightarrow> py_int dec g
           | None \<Rightarrow> pages_from_navigation dec s)
      | None \<Rightarrow> pages_from_navigation dec s)"

text \<open>The inner function \<open>extract\<close>: it appends to the two lists of the caller.\<close>

definition extract_soup :: "soup \<Rightarrow> ustr list \<times> ustr list \<Rightarrow> ustr list \<times> ustr list" where
  "extract_soup s acc =
     (case acc of (member_links, parties) \<Rightarrow>
        (member_links @ filter (\<lambda>href. href \<noteq> []) (member_hrefs s), parties @ jdang_texts s))"

text \<open>The loop \<open>for p in range(2, total_pages + 1)\<close> over the pages that are left.\<close>

fun collect_pages ::
  "env \<Rightarrow> ustr \<Rightarrow> ustr \<Rightarrow> int list \<Rightarrow> ustr list \<times> ustr list \<Rightarrow> request list
     \<Rightarrow> (exn + ustr list \<times> ustr list) \<times> request list" where
  "collect_pages env bill_id base_url [] acc tr = (Inr acc, tr)"
| "collect_pages env bill_id base_url (p # ps) acc tr =
     (case proposer_soup env bill_id base_url p tr of
        (Inl e, tr') \<Rightarrow> (Inl e, tr')
      | (Inr s, tr') \<Rightarrow> collect_pages env bill_id base_url ps (extract_soup s acc) tr')"

definition collect_members_from_popup ::
  "decimal_table \<Rightarrow> env \<Rightarrow> ustr \<Rightarrow> request list
     \<Rightarrow> (exn + ustr list \<times> ustr list \<times> nat) \<times> request list" where
  "collect_members_from_popup dec env bill_id tr =
     (case build_proposer_popup_url_from_detail env bill_id tr of
        (Inl e, tr1) \<Rightarrow> (Inl e, tr1)
      | (Inr base_url, tr1) \<Rightarrow>
          (case proposer_soup env bill_id base_url 1 tr1 of
             (Inl e, tr2) \<Rightarrow> (Inl e, tr2)
           | (Inr soup1, tr2) \<Rightarrow>
               (case parse_total_pages dec soup1 of
                  Inl e \<Rightarrow> (Inl e, tr2)
                | Inr total_pages \<Rightarrow>
                    (case collect_pages env bill_id base_url [2..total_pages]
                            (extract_soup soup1 ([], [])) tr2 of
                       (Inl e, tr3) \<Rightarrow> (Inl e, tr3)
                     | (Inr (member_links, parties), tr3) \<Rightarrow>
                         (Inr (member_links, parties, length member_links), tr3)))))"

section \<open>Floating-point average\<close>

text \<open>
  \<open>sum(seniorities) / len(seniorities)\<close> is Python's true division of integers: the
  IEEE 754 double nearest to the exact quotient (ties to even), or \<open>OverflowError\<close> when
  that is out of range. \<open>round(x, 2)\<close> rounds the exact value of the double \<open>x\<close> to two
  decimals (ties to even) and returns the double nearest to that decimal. A finite
  double is modelled by its exact value, a rational number.
\<close>

text \<open>\<open>int.bit_length\<close>.\<close>

fun bit_length :: "nat \<Rightarrow> nat" where
  "bit_length n = (if n = 0 then 0 else Suc (bit_length (n div 2)))"

declare bit_length.simps [simp del]

definition pow2 :: "int \<Rightarrow> rat" where
  "pow2 e = (if 0 \<le> e then 2 ^ nat e else 1 / 2 ^ nat (- e))"

text \<open>For \<open>q > 0\<close>: the exponent \<open>e\<close> with \<open>2^e \<le> q < 2^(e+1)\<close>.\<close>

definition floor_log2 :: "rat \<Rightarrow> int" where
  "floor_log2 q =
     (if 1 \<le> q then int (bit_length (nat \<lfloor>q\<rfloor>)) - 1
      else - int (bit_length (nat (\<lceil>1 / q\<rceil> - 1))))"

definition round_half_even :: "rat \<Rightarrow> int" where
  "round_half_even x =
     (let f = \<lfloor>x\<rfloor>; d = x - of_int f
      in if d < 1 / 2 then f else if 1 / 2 < d then f + 1 else if even f then f else f + 1)"

text \<open>
  Rounding to the nearest double, ties to even: 53 significant bits, exponents from
  -1022 (below that the spacing stays \<open>2^-1074\<close>). The result may reach \<open>2^1024\<close>, which is
  not a finite double: \<open>py_truediv\<close> checks for it, and rounding a finite double to two
  decimals cannot get there.
\<close>

definition round_to_double :: "rat \<Rightarrow> rat" where
  "round_to_double q =
     (if q = 0 then 0
      else (let a = \<bar>q\<bar>;
                e = max (floor_log2 a) (- 1022);
                quantum = pow2 (e - 52);
                r = of_int (round_half_even (a / quantum)) * quantum
            in if q < 0 then - r else r))"

definition py_truediv :: "int \<Rightarrow> int \<Rightarrow> exn + rat" where
  "py_truediv a b =
     (if b = 0 then Inl ZeroDivisionError
      else (let r = round_to_double (of_int a / of_int b)
            in if pow2 1024 \<le> \<bar>r\<bar> then Inl OverflowError else Inr r))"

definition py_round2 :: "rat \<Rightarrow> rat" where
  "py_round2 x = round_to_double (of_int (round_half_even (x * 100)) / 100)"

section \<open>One bill, and the driver\<close>

record bill_result =
  bill_id :: ustr
  num_proposers :: "nat option"
  avg_seniority :: "rat option"
  parties :: "ustr option"
  error :: "exn option"

text \<open>
  The member pages are fetched by a pool of worker threads. The model runs the calls
  one after the other in the order of submission; the values are collected in the
  order of completion, which the model takes to be the same (the average below does not
  depend on it). \<open>parse_member_seniority\<close> raises nothing, so \<open>fut.result()\<close> does not
  either.
\<close>

fun collect_seniorities ::
  "decimal_table \<Rightarrow> env \<Rightarrow> ustr list \<Rightarrow> int \<Rightarrow> request list \<Rightarrow> int list \<times> request list" where
  "collect_seniorities dec env [] base_assembly tr = ([], tr)"
| "collect_seniorities dec env (url # urls) base_assembly tr =
     (case parse_member_seniority dec env url base_assembly tr of
        (s, tr1) \<Rightarrow>
          (case collect_seniorities dec env urls base_assembly tr1 of
             (ss, tr2) \<Rightarrow> ((case s of Some v \<Rightarrow> v # ss | None \<Rightarrow> ss), tr2)))"

text \<open>\<open>round(sum(seniorities) / len(seniorities), 2) if seniorities else None\<close>.\<close>

definition average_seniority :: "int list \<Rightarrow> exn + rat option" where
  "average_seniority seniorities =
     (if seniorities \<noteq> [] then
        (case py_truediv (sum_list seniorities) (int (length seniorities)) of
           Inl e \<Rightarrow> Inl e
         | Inr q \<Rightarrow> Inr (Some (py_round2 q)))
      else Inr None)"

text \<open>\<open>sorted(set([p for p in parties if p]))\<close>; strings compare by code points.\<close>

definition unique_parties_of :: "ustr list \<Rightarrow> ustr list" where
  "unique_parties_of ps = sort (remdups (filter (\<lambda>p. p \<noteq> []) ps))"

fun py_join :: "ustr \<Rightarrow> ustr list \<Rightarrow> ustr" where
  "py_join sep [] = []"
| "py_join sep [x] = x"
| "py_join sep (x # y # ys) = x @ sep @ py_join sep (y # ys)"

definition error_result :: "ustr \<Rightarrow> exn \<Rightarrow> bill_result" where
  "error_result bid e =
     \<lparr>bill_id = bid, num_proposers = None, avg_seniority = None, parties = None,
      error = Some e\<rparr>"

definition process_one_bill ::
  "decimal_table \<Rightarrow> env \<Rightarrow> ustr \<Rightarrow> int \<Rightarrow> request list \<Rightarrow> bill_result \<times> request list" where
  "process_one_bill dec env bid base_assembly tr =
     (case collect_members_from_popup dec env bid tr of
        (Inl e, tr1) \<Rightarrow> (error_result bid e, tr1)
      | (Inr (member_links, ps, n), tr1) \<Rightarrow>
          (let unique_parties = unique_parties_of ps in
           case collect_seniorities dec env member_links base_assembly tr1 of
             (seniorities, tr2) \<Rightarrow>
               (case average_seniority seniorities of
                  Inl e \<Rightarrow> (error_result bid e, tr2)
                | Inr avg \<Rightarrow>
                    (\<lparr>bill_id = bid, num_proposers = Some n, avg_seniority = avg,
                      parties = (if unique_parties \<noteq> []
                                 then Some (py_join (ascii '', '') unique_parties) else None),
                      error = None\<rparr>, tr2))))"

definition FIRST_21_BILL_ID :: ustr where
  "FIRST_21_BILL_ID = ascii ''PRC_K2E0H0I6U0X1T1J1Y3J9R1K8R0L6P0''"

text \<open>\<open>list.index\<close>: the position of the first occurrence, \<open>None\<close> for \<open>ValueError\<close>.\<close>

fun py_index :: "'a list \<Rightarrow> 'a \<Rightarrow> nat option" where
  "py_index [] x = None"
| "py_index (y # ys) x = (if y = x then Some 0 else map_option Suc (py_index ys x))"

definition first21_idx :: "ustr list \<Rightarrow> nat" where
  "first21_idx bill_ids =
     (case py_index bill_ids FIRST_21_BILL_ID of Some i \<Rightarrow> i | None \<Rightarrow> length bill_ids)"

text \<open>
  The loop of \<open>main\<close> over \<open>enumerate(bill_ids)\<close>: each identifier with the
  \<open>base_assembly\<close> the loop computes for it, and then the calls of \<open>process_one_bill\<close>
  in that order.
\<close>

definition assign_contexts :: "ustr list \<Rightarrow> (ustr \<times> int) list" where
  "assign_contexts bill_ids =
     map (\<lambda>(i, bid). (bid, if first21_idx bill_ids \<le> i then 21 else 20))
       (enumerate 0 bill_ids)"

fun process_all ::
  "decimal_table \<Rightarrow> env \<Rightarrow> (ustr \<times> int) list \<Rightarrow> request list
     \<Rightarrow> bill_result list \<times> request list" where
  "process_all dec env [] tr = ([], tr)"
| "process_all dec env ((bid, base_assembly) # rest) tr =
     (case process_one_bill dec env bid base_assembly tr of
        (r, tr1) \<Rightarrow>
          (case process_all dec env rest tr1 of
             (rs, tr2) \<Rightarrow> (r # rs, tr2)))"

definition main_results ::
  "decimal_table \<Rightarrow> env \<Rightarrow> ustr list \<Rightarrow> request list \<Rightarrow> bill_result list \<times> request list" where
  "main_results dec env bill_ids tr = process_all dec env (assign_contexts bill_ids) tr"

section \<open>Sample pages and environments\<close>

definition empty_soup :: soup where
  "empty_soup =
     \<lparr>proposer_onclick = None, li_member_hrefs = [], member_hrefs = [], jdang_texts = [],
      pager_pages_text = None, paging_onclicks = [], dd_text = None, new_dl_text = None\<rparr>"

text \<open>An environment that answers every request with a profile page of the given text.\<close>

definition profile_env :: "ustr \<Rightarrow> env" where
  "profile_env t tr req = Inr \<lparr>status_code = 200, page = empty_soup\<lparr>dd_text := Some t\<rparr>\<rparr>"

text \<open>
  Profile texts: a numeric count of three, the word for a first term, and a numeric
  count of two, followed by assembly markers.
\<close>

definition text_three_both :: ustr where
  "text_three_both = [51, 49440, 32] @ marker_21 @ [32] @ marker_22"

definition text_first_next :: ustr where
  "text_first_next = [52488, 49440, 32] @ marker_22"

definition text_two_both :: ustr where
  "text_two_both = [50, 49440, 32] @ marker_21 @ [32] @ marker_22"

text \<open>
  The outcome of the attempt number \<open>k\<close> (from 0) of a call of \<open>fetch\<close> that starts
  with the requests \<open>tr\<close> behind it, when the attempts before it have failed: each of
  them has added one request to the list.
\<close>

definition attempt_outcome ::
  "env \<Rightarrow> bool \<Rightarrow> ustr \<Rightarrow> request list \<Rightarrow> nat \<Rightarrow> exn + response" where
  "attempt_outcome env use_cache url tr k =
     fst (get_checked env use_cache url (tr @ replicate k (use_cache, url)))"

definition ok_response :: response where
  "ok_response = \<lparr>status_code = 200, page = empty_soup\<rparr>"

text \<open>
  Environments for \<open>fetch\<close>: one that times out until two requests have been made, one
  that answers with status 500, 501, 502, \<dots> and one whose cache raises \<open>TypeError\<close>
  while the network is down.
\<close>

definition flaky_env :: env where
  "flaky_env tr req = (if length tr < 2 then Inl Timeout else Inr ok_response)"

definition failing_env :: env where
  "failing_env tr req = Inr \<lparr>status_code = 500 + length tr, page = empty_soup\<rparr>"

definition cache_broken_env :: env where
  "cache_broken_env tr req = (if fst req then Inl TypeError else Inl Timeout)"

definition sample_ids :: "ustr list" where
  "sample_ids = [ascii ''A'', FIRST_21_BILL_ID, ascii ''B'', FIRST_21_BILL_ID]"

text \<open>A page with the given hidden pager value and navigation links.\<close>

definition pager_soup :: "ustr option \<Rightarrow> ustr list \<Rightarrow> soup" where
  "pager_soup v nav = empty_soup\<lparr>pager_pages_text := v, paging_onclicks := nav\<rparr>"

text \<open>The pager value of the first of two pages.\<close>

definition pages_1_of_2 :: ustr where
  "pages_1_of_2 = ascii '' (1/2 '' @ [54168, 51060, 51648] @ ascii '')''"

text \<open>
  A scripted environment: the request number \<open>n\<close> (from 0) gets the outcome number \<open>n\<close>
  of the script, and the connection fails once the script is used up.
\<close>

definition scripted :: "(exn + response) list \<Rightarrow> env" where
  "scripted outs tr req = (if length tr < length outs then outs ! length tr else Inl ConnectionError)"

definition ok_page :: "soup \<Rightarrow> exn + response" where
  "ok_page s = Inr \<lparr>status_code = 200, page = s\<rparr>"

text \<open>A listing page with the given member links, party labels and hidden pager value.\<close>

definition list_page :: "ustr list \<Rightarrow> ustr list \<Rightarrow> ustr option \<Rightarrow> soup" where
  "list_page hrefs labels pager =
     empty_soup\<lparr>li_member_hrefs := hrefs, member_hrefs := hrefs, jdang_texts := labels,
                pager_pages_text := pager\<rparr>"

definition sample_bill :: ustr where
  "sample_bill = ascii ''B1''"

text \<open>An \<open>onclick\<close> attribute that names a bill number and no bill name.\<close>

definition sample_onclick :: ustr where
  "sample_onclick =
     ascii ''Navigation.bill.popup.billProposer({billNo: '' @ [39] @ ascii ''21'' @ [39]
       @ ascii ''})''"

definition member_a :: ustr where
  "member_a = ascii ''https://www.assembly.go.kr/members/a''"

definition member_b :: ustr where
  "member_b = ascii ''https://www.assembly.go.kr/members/b''"

definition party_p :: ustr where
  "party_p = ascii ''P''"

definition party_q :: ustr where
  "party_q = ascii ''Q''"

text \<open>
  A site whose first listing page is served under \<open>pageIndex\<close> and announces two pages,
  whose second page is empty under \<open>pageIndex\<close> and served under \<open>pageNo\<close>.
\<close>

definition reprobe_script :: "(exn + response) list" where
  "reprobe_script =
     [ok_page empty_soup,
      ok_page (list_page [member_a] [party_p] (Some pages_1_of_2)),
      ok_page empty_soup,
      ok_page (list_page [member_b] [party_q] None)]"

text \<open>
  A site whose first listing page announces two pages, and which shows no member list
  under any candidate parameter for page 2; the base URL serves the first page again.
\<close>

definition fallback_script :: "(exn + response) list" where
  "fallback_script =
     [ok_page empty_soup,
      ok_page (list_page [member_a] [party_p] (Some pages_1_of_2)),
      ok_page empty_soup, ok_page empty_soup, ok_page empty_soup, ok_page empty_soup,
      ok_page empty_soup,
      ok_page (list_page [member_a] [party_p] (Some pages_1_of_2))]"

text \<open>
  A run over two bills: the detail page of the first one times out three times; the
  second one has one sponsor, of party \<open>P\<close>, in a first term.
\<close>

definition outage_script :: "(exn + response) list" where
  "outage_script =
     [Inl Timeout, Inl Timeout, Inl Timeout,
      ok_page empty_soup,
      ok_page (list_page [member_a] [party_p] None),
      ok_page (empty_soup\<lparr>dd_text := Some text_first_next\<rparr>)]"

definition second_bill :: ustr where
  "second_bill = ascii ''B2''"

text \<open>
  The exact arithmetic mean, and rounding to the nearest integer with ties upwards, for
  comparison with the floating-point average.
\<close>

definition mean :: "int list \<Rightarrow> rat" where
  "mean xs = of_int (sum_list xs) / of_int (int (length xs))"

definition round_half_up :: "rat \<Rightarrow> int" where
  "round_half_up x = \<lfloor>x + 1 / 2\<rfloor>"

text \<open>Forty sponsors, 27 in a third term and 13 in a second: 107 terms in all.\<close>

definition tie_sample :: "int list" where
  "tie_sample = replicate 27 3 @ replicate 13 2"

text \<open>
  A run of 4301 digits, one more than \<open>int\<close> accepts; a profile text and a pager value
  that hold it.
\<close>

definition long_digits :: ustr where
  "long_digits = 49 # replicate 4300 49"

definition long_text :: ustr where
  "long_text = long_digits @ [49440]"

definition long_pager :: ustr where
  "long_pager = 47 # long_digits @ [54168, 51060, 51648]"

section \<open>Properties of the seniority resolver\<close>

lemma adjust_seniority_eq:
  "adjust_seniority text raw base =
     max 1 (raw - (if base \<le> 20
                   then of_bool (contains marker_21 text) + of_bool (contains marker_22 text)
                   else if base = 21 then of_bool (contains marker_22 text) else 0))"
  by (simp add: adjust_seniority_def Let_def max_def)

lemma adjust_seniority_ge_1: "1 \<le> adjust_seniority text raw base"
  by (simp add: adjust_seniority_def Let_def)

lemma parse_member_seniority_Some:
  assumes "fetch env RETRY False member_url tr = (Inr resp, tr')"
      and "profile_text (page resp) \<noteq> []"
      and "raw_seniority dec (profile_text (page resp)) = Inr (Some raw)"
  shows "parse_member_seniority dec env member_url base tr =
           (Some (adjust_seniority (profile_text (page resp)) raw base), tr')"
  using assms by (simp add: parse_member_seniority_def Let_def)

lemma parse_member_seniority_None:
  assumes "fetch env RETRY False member_url tr = (Inr resp, tr')"
      and "raw_seniority dec (profile_text (page resp)) = Inr None
           \<or> (\<exists>e. raw_seniority dec (profile_text (page resp)) = Inl e)"
  shows "parse_member_seniority dec env member_url base tr = (None, tr')"
  using assms by (auto simp: parse_member_seniority_def Let_def)

lemma raw_seniority_matched:
  "rsearch [GPlus (isdecimal dec), Star isspace, Lit [49440]] text = Some g \<Longrightarrow>
     raw_seniority dec text =
       (if length g \<le> 4300 then Inr (Some (digits_value dec g)) else Inl ValueError)"
  by (simp add: raw_seniority_def py_int_def INT_MAX_STR_DIGITS_def)

text \<open>
  A greedy captured repetition takes a whole run of characters of its class when the
  rest of the pattern matches right after the run and the run cannot go on.
\<close>

lemma rmatch_GStar_run:
  assumes "\<forall>c\<in>set ds. p c" and "w = [] \<or> \<not> p (hd w)"
      and "rmatch r w (cap @ ds) = Some res"
  shows "rmatch (GStar p # r) (ds @ w) cap = Some res"
  using assms
proof (induction ds arbitrary: cap)
  case Nil
  then show ?case by (cases w) auto
next
  case (Cons d ds)
  from Cons.prems have "rmatch r w ((cap @ [d]) @ ds) = Some res" by simp
  with Cons.IH [of "cap @ [d]"] Cons.prems
  have "rmatch (GStar p # r) (ds @ w) (cap @ [d]) = Some res" by simp
  with Cons.prems show ?case by simp
qed

lemma long_digits_facts:
  "length long_digits = 4301" "\<forall>c\<in>set long_digits. isdecimal ascii_decimal c"
  by (simp_all only: long_digits_def length_Cons length_replicate set_simps set_replicate_conv_if)
     (simp_all add: isdecimal_def ascii_decimal_def)

lemma long_text_search:
  "rsearch [GPlus (isdecimal ascii_decimal), Star isspace, Lit [49440]] long_text
     = Some long_digits"
proof -
  let ?r = "[Star isspace, Lit [49440]]"
  have d: "isdecimal ascii_decimal 49" by (simp add: isdecimal_def ascii_decimal_def)
  have tl: "\<forall>c\<in>set (replicate 4300 49). isdecimal ascii_decimal c"
    using d by (simp only: set_replicate_conv_if) simp
  have e: "rmatch ?r [49440] ([49] @ replicate 4300 49) = Some ([49] @ replicate 4300 49)"
    by (simp add: isspace_def)
  have n: "[49440] = [] \<or> \<not> isdecimal ascii_decimal (hd [49440])"
    by (simp add: isdecimal_def ascii_decimal_def)
  from rmatch_GStar_run [OF tl n e]
  have "rmatch (GStar (isdecimal ascii_decimal) # ?r) (replicate 4300 49 @ [49440]) [49]
          = Some (49 # replicate 4300 49)"
    by simp
  with d have "rmatch [GPlus (isdecimal ascii_decimal), Star isspace, Lit [49440]]
                 (49 # replicate 4300 49 @ [49440]) [] = Some (49 # replicate 4300 49)"
    by simp
  then show ?thesis by (simp add: long_text_def long_digits_def)
qed

lemma long_text_raw: "raw_seniority ascii_decimal long_text = Inl ValueError"
  using raw_seniority_matched [OF long_text_search] long_digits_facts(1) by simp

lemma parse_member_seniority_SomeD:
  assumes "parse_member_seniority dec env member_url base tr = (Some v, tr')"
  shows "\<exists>text raw. v = adjust_seniority text raw base"
  using assms
  by (auto simp: parse_member_seniority_def Let_def
           split: prod.splits sum.splits if_splits option.splits)

lemma fetch_profile_env:
  "fetch (profile_env t) RETRY False u [] =
     (Inr \<lparr>status_code = 200, page = empty_soup\<lparr>dd_text := Some t\<rparr>\<rparr>, [(False, u)])"
  by (simp add: fetch_def RETRY_def upto.simps get_checked_def session_get_def
        profile_env_def raise_for_status_def)

lemma profile_text_dd: "profile_text (empty_soup\<lparr>dd_text := Some t\<rparr>) = t"
  by (simp add: profile_text_def empty_soup_def)

lemma profile_text_sample:
  "profile_text (page \<lparr>status_code = 200, page = empty_soup\<lparr>dd_text := Some t\<rparr>\<rparr>) = t"
  by (simp add: profile_text_def empty_soup_def)

lemma raw_seniority_samples:
  "raw_seniority ascii_decimal text_three_both = Inr (Some 3)"
  "raw_seniority ascii_decimal text_first_next = Inr (Some 1)"
  "raw_seniority ascii_decimal text_two_both = Inr (Some 2)"
  by (simp_all add: text_three_both_def text_first_next_def text_two_both_def
        raw_seniority_def isdecimal_def ascii_decimal_def isspace_def py_int_def
        INT_MAX_STR_DIGITS_def digits_value_def marker_21_def marker_22_def KOR_SEN_MAP_def)

lemma marker_samples:
  "contains marker_21 text_three_both" "contains marker_22 text_three_both"
  "contains marker_22 text_first_next"
  "contains marker_21 text_two_both" "contains marker_22 text_two_both"
  by (simp_all add: text_three_both_def text_first_next_def text_two_both_def
        marker_21_def marker_22_def)

lemma text_samples_nonempty:
  "text_three_both \<noteq> []" "text_first_next \<noteq> []" "text_two_both \<noteq> []"
  "long_text \<noteq> []"
  by (simp_all add: text_three_both_def text_first_next_def text_two_both_def long_text_def
        long_digits_def)

text \<open>
  Claim C1. Let the profile page be fetched and its text be not empty. When a raw term
  count \<open>raw\<close> is extracted from the text, \<open>parse_member_seniority\<close> returns \<open>raw\<close>
  minus the number of future markers in the text, raised to 1 when that is below 1: for
  a base assembly of 20 or less each of the markers of the 21st and 22nd assembly
  counts, for base assembly 21 only the marker of the 22nd, and from 22 on nothing is
  subtracted. When no count is extracted, or \<open>int\<close> raises, the result is absent. The
  raw count of a text that matches the digit pattern is the number its digits denote,
  provided there are at most 4300 of them; beyond that \<open>int\<close> raises \<open>ValueError\<close>.
\<close>

theorem seniority_normalization:
  assumes "fetch env RETRY False member_url tr = (Inr resp, tr')"
      and "profile_text (page resp) = text" and "text \<noteq> []"
  shows "(\<forall>raw. raw_seniority dec text = Inr (Some raw) \<longrightarrow>
            (base \<le> 20 \<longrightarrow>
               fst (parse_member_seniority dec env member_url base tr) =
                 Some (max 1 (raw - (of_bool (contains marker_21 text)
                                     + of_bool (contains marker_22 text)))))
          \<and> (base = 21 \<longrightarrow>
               fst (parse_member_seniority dec env member_url base tr) =
                 Some (max 1 (raw - of_bool (contains marker_22 text))))
          \<and> (22 \<le> base \<longrightarrow>
               fst (parse_member_seniority dec env member_url base tr) = Some (max 1 raw)))
       \<and> (raw_seniority dec text = Inr None \<or> (\<exists>e. raw_seniority dec text = Inl e)
            \<longrightarrow> fst (parse_member_seniority dec env member_url base tr) = None)
       \<and> (\<forall>g. rsearch [GPlus (isdecimal dec), Star isspace, Lit [49440]] text = Some g
            \<longrightarrow> raw_seniority dec text =
                  (if length g \<le> 4300 then Inr (Some (digits_value dec g))
                   else Inl ValueError))"
proof (intro conjI allI impI)
  fix raw assume r: "raw_seniority dec text = Inr (Some raw)"
  from parse_member_seniority_Some [OF assms(1), of dec raw base] assms(2,3) r
  have p: "fst (parse_member_seniority dec env member_url base tr)
             = Some (adjust_seniority text raw base)"
    by simp
  { assume "base \<le> 20"
    with p show "fst (parse_member_seniority dec env member_url base tr) =
                 Some (max 1 (raw - (of_bool (contains marker_21 text)
                                     + of_bool (contains marker_22 text))))"
      by (simp add: adjust_seniority_eq) }
  { assume "base = 21"
    with p show "fst (parse_member_seniority dec env member_url base tr) =
                 Some (max 1 (raw - of_bool (contains marker_22 text)))"
      by (simp add: adjust_seniority_eq) }
  { assume "22 \<le> base"
    with p show "fst (parse_member_seniority dec env member_url base tr) = Some (max 1 raw)"
      by (simp add: adjust_seniority_eq) }
next
  assume "raw_seniority dec text = Inr None \<or> (\<exists>e. raw_seniority dec text = Inl e)"
  with parse_member_seniority_None [OF assms(1), of dec base] assms(2)
  show "fst (parse_member_seniority dec env member_url base tr) = None" by simp
next
  fix g assume "rsearch [GPlus (isdecimal dec), Star isspace, Lit [49440]] text = Some g"
  then show "raw_seniority dec text =
                  (if length g \<le> 4300 then Inr (Some (digits_value dec g))
                   else Inl ValueError)"
    by (rule raw_seniority_matched)
qed

text \<open>
  The three cases the specification lists: base 20, raw 3, both markers: 1; base 21, raw
  1, the marker of the 22nd assembly: 1; base 22, raw 2, both markers: 2. And a text of
  4301 digits before the syllable: no value.
\<close>

theorem seniority_normalization_witness:
  "raw_seniority ascii_decimal text_three_both = Inr (Some 3)
   \<and> contains marker_21 text_three_both \<and> contains marker_22 text_three_both
   \<and> fst (parse_member_seniority ascii_decimal (profile_env text_three_both) [] 20 []) = Some 1
   \<and> raw_seniority ascii_decimal text_first_next = Inr (Some 1)
   \<and> contains marker_22 text_first_next
   \<and> fst (parse_member_seniority ascii_decimal (profile_env text_first_next) [] 21 []) = Some 1
   \<and> raw_seniority ascii_decimal text_two_both = Inr (Some 2)
   \<and> contains marker_21 text_two_both \<and> contains marker_22 text_two_both
   \<and> fst (parse_member_seniority ascii_decimal (profile_env text_two_both) [] 22 []) = Some 2
   \<and> raw_seniority ascii_decimal long_text = Inl ValueError
   \<and> fst (parse_member_seniority ascii_decimal (profile_env long_text) [] 20 []) = None"
proof -
  note f = fetch_profile_env and p = profile_text_sample
  from seniority_normalization [OF f p text_samples_nonempty(1), where base = 20]
       raw_seniority_samples(1) marker_samples
  have a: "fst (parse_member_seniority ascii_decimal (profile_env text_three_both) [] 20 [])
             = Some 1"
    by simp
  from seniority_normalization [OF f p text_samples_nonempty(2), where base = 21]
       raw_seniority_samples(2) marker_samples
  have b: "fst (parse_member_seniority ascii_decimal (profile_env text_first_next) [] 21 [])
             = Some 1"
    by simp
  from seniority_normalization [OF f p text_samples_nonempty(3), where base = 22]
       raw_seniority_samples(3)
  have c: "fst (parse_member_seniority ascii_decimal (profile_env text_two_both) [] 22 [])
             = Some 2"
    by simp
  from seniority_normalization [OF f p text_samples_nonempty(4), where base = 20]
       long_text_raw
  have d: "fst (parse_member_seniority ascii_decimal (profile_env long_text) [] 20 []) = None"
    by blast
  from a b c d raw_seniority_samples marker_samples long_text_raw show ?thesis by simp
qed

text \<open>
  Claim C2. Whenever \<open>parse_member_seniority\<close> returns a value, that value is at
  least 1, whatever the raw count and the markers subtracted.
\<close>

theorem seniority_at_least_one:
  "parse_member_seniority dec env member_url base tr = (Some v, tr') \<Longrightarrow> 1 \<le> v"
  using parse_member_seniority_SomeD adjust_seniority_ge_1 by blast

theorem seniority_at_least_one_witness:
  "parse_member_seniority ascii_decimal (profile_env text_first_next) [] 21 []
     = (Some 1, [(False, [])])
   \<and> (1::int) \<le> 1"
proof -
  have e: "parse_member_seniority ascii_decimal (profile_env text_first_next) [] 21 []
             = (Some 1, [(False, [])])"
    by (simp add: parse_member_seniority_def fetch_profile_env profile_text_dd
          raw_seniority_samples text_samples_nonempty adjust_seniority_eq marker_samples)
  from seniority_at_least_one [OF e] e show ?thesis by simp
qed

section \<open>Properties of the fetch client\<close>

lemma get_checked_trace: "snd (get_checked env c url tr) = tr @ [(c, url)]"
  by (simp add: get_checked_def session_get_def split: sum.splits)

lemma get_checked_eq:
  "get_checked env c url tr = (fst (get_checked env c url tr), tr @ [(c, url)])"
  by (metis get_checked_trace prod.collapse)

lemma attempt_outcome_shift:
  "attempt_outcome env uc url (tr @ [(uc, url)]) j = attempt_outcome env uc url tr (Suc j)"
  by (simp add: attempt_outcome_def replicate_app_Cons_same)

lemma fetch_attempts_cases:
  "fetch_attempts env uc url atts lerr tr = (res, tr') \<Longrightarrow>
   \<exists>k\<le>length atts.
     (\<forall>j<k. \<exists>e. attempt_outcome env uc url tr j = Inl e \<and> e \<noteq> TypeError) \<and>
     (if k = length atts then
        res = (if k = 0 then Inl (case lerr of None \<Rightarrow> TypeError | Some e \<Rightarrow> e)
               else attempt_outcome env uc url tr (k - 1))
        \<and> tr' = tr @ replicate k (uc, url)
      else (case attempt_outcome env uc url tr k of
              Inr resp \<Rightarrow> res = Inr resp \<and> tr' = tr @ replicate (Suc k) (uc, url)
            | Inl e \<Rightarrow> e = TypeError
                \<and> res = fst (get_checked env False url (tr @ replicate (Suc k) (uc, url)))
                \<and> tr' = tr @ replicate (Suc k) (uc, url) @ [(False, url)]))"
proof (induction atts arbitrary: lerr tr)
  case Nil
  then show ?case by simp
next
  case (Cons a atts)
  let ?o = "attempt_outcome env uc url tr 0"
  have gc: "get_checked env uc url tr = (?o, tr @ [(uc, url)])"
    using get_checked_eq [of env uc url tr] by (simp add: attempt_outcome_def)
  show ?case
  proof (cases ?o)
    case (Inr resp)
    with Cons.prems gc have "res = Inr resp" "tr' = tr @ [(uc, url)]" by auto
    with Inr show ?thesis by (intro exI [of _ 0]) simp
  next
    case (Inl e)
    show ?thesis
    proof (cases "e = TypeError")
      case True
      with Cons.prems gc Inl
      have "(res, tr') = get_checked env False url (tr @ [(uc, url)])" by auto
      then have "res = fst (get_checked env False url (tr @ [(uc, url)]))"
        "tr' = snd (get_checked env False url (tr @ [(uc, url)]))"
        using fst_conv [of res tr'] snd_conv [of res tr'] by simp_all
      then have "res = fst (get_checked env False url (tr @ [(uc, url)]))"
        "tr' = tr @ [(uc, url)] @ [(False, url)]"
        by (simp_all add: get_checked_trace)
      with Inl True show ?thesis by (intro exI [of _ 0]) simp
    next
      case False
      with Cons.prems gc Inl
      have rec: "fetch_attempts env uc url atts (Some e) (tr @ [(uc, url)]) = (res, tr')"
        by auto
      from Cons.IH [OF rec] obtain k where k: "k \<le> length atts"
        and pre: "\<forall>j<k. \<exists>e. attempt_outcome env uc url (tr @ [(uc, url)]) j = Inl e \<and> e \<noteq> TypeError"
        and post: "(if k = length atts then
            res = (if k = 0 then Inl (case Some e of None \<Rightarrow> TypeError | Some e \<Rightarrow> e)
                   else attempt_outcome env uc url (tr @ [(uc, url)]) (k - 1))
            \<and> tr' = (tr @ [(uc, url)]) @ replicate k (uc, url)
          else (case attempt_outcome env uc url (tr @ [(uc, url)]) k of
              Inr resp \<Rightarrow> res = Inr resp \<and> tr' = (tr @ [(uc, url)]) @ replicate (Suc k) (uc, url)
            | Inl e \<Rightarrow> e = TypeError
                \<and> res = fst (get_checked env False url ((tr @ [(uc, url)]) @ replicate (Suc k) (uc, url)))
                \<and> tr' = (tr @ [(uc, url)]) @ replicate (Suc k) (uc, url) @ [(False, url)]))"
        by blast
      have pre': "\<forall>j<Suc k. \<exists>e. attempt_outcome env uc url tr j = Inl e \<and> e \<noteq> TypeError"
      proof (intro allI impI)
        fix j assume "j < Suc k"
        show "\<exists>e. attempt_outcome env uc url tr j = Inl e \<and> e \<noteq> TypeError"
        proof (cases j)
          case 0
          with Inl False show ?thesis by simp
        next
          case (Suc i)
          with \<open>j < Suc k\<close> pre show ?thesis by (simp add: attempt_outcome_shift)
        qed
      qed
      have app: "\<And>n. (tr @ [(uc, url)]) @ replicate n (uc, url) = tr @ replicate (Suc n) (uc, url)"
        by (simp add: replicate_app_Cons_same)
      have app2: "\<And>n ys. (tr @ [(uc, url)]) @ replicate n (uc, url) @ ys
                       = tr @ replicate (Suc n) (uc, url) @ ys"
        by (simp add: replicate_app_Cons_same)
      show ?thesis
      proof (intro exI [of _ "Suc k"] conjI)
        show "Suc k \<le> length (a # atts)" using k by simp
        show "\<forall>j<Suc k. \<exists>e. attempt_outcome env uc url tr j = Inl e \<and> e \<noteq> TypeError"
          by (rule pre')
        show "if Suc k = length (a # atts) then
            res = (if Suc k = 0 then Inl (case lerr of None \<Rightarrow> TypeError | Some e \<Rightarrow> e)
                   else attempt_outcome env uc url tr (Suc k - 1))
            \<and> tr' = tr @ replicate (Suc k) (uc, url)
          else (case attempt_outcome env uc url tr (Suc k) of
              Inr resp \<Rightarrow> res = Inr resp \<and> tr' = tr @ replicate (Suc (Suc k)) (uc, url)
            | Inl e \<Rightarrow> e = TypeError
                \<and> res = fst (get_checked env False url (tr @ replicate (Suc (Suc k)) (uc, url)))
                \<and> tr' = tr @ replicate (Suc (Suc k)) (uc, url) @ [(False, url)])"
        proof (cases "k = length atts")
          case True
          with post have r: "res = (if k = 0 then Inl e
                   else attempt_outcome env uc url (tr @ [(uc, url)]) (k - 1))"
            and t: "tr' = (tr @ [(uc, url)]) @ replicate k (uc, url)" by simp_all
          from r Inl have "res = attempt_outcome env uc url tr k"
            by (cases k) (simp_all add: attempt_outcome_shift)
          with t True show ?thesis by (simp add: replicate_app_Cons_same)
        next
          case False
          with post show ?thesis
            unfolding attempt_outcome_shift app app2 by simp
        qed
      qed
    qed
  qed
qed

lemma length_attempts_RETRY: "length [1..RETRY] = 3" and nat_RETRY: "nat RETRY = 3"
  by (simp_all add: RETRY_def upto.simps)

text \<open>
  Claim C10. A call of \<open>fetch\<close> with the default bound makes at most \<open>RETRY\<close> = 3
  attempts: some number \<open>k \<le> 3\<close> of attempts fail with a fault other than \<open>TypeError\<close>;
  if \<open>k = 3\<close>, the fault of the last attempt is raised, after exactly three requests;
  otherwise attempt \<open>k\<close> either succeeds, and its response is returned with no further
  request, or raises \<open>TypeError\<close>, and then exactly one more request is made, without
  the cache, whose response or fault is the result at once.
\<close>

theorem fetch_bounded_retries:
  assumes "fetch env RETRY use_cache url tr = (res, tr')"
  shows "\<exists>k\<le>nat RETRY.
     (\<forall>j<k. \<exists>e. attempt_outcome env use_cache url tr j = Inl e \<and> e \<noteq> TypeError) \<and>
     (if k = nat RETRY then
        res = attempt_outcome env use_cache url tr (nat RETRY - 1)
        \<and> tr' = tr @ replicate (nat RETRY) (use_cache, url)
      else (case attempt_outcome env use_cache url tr k of
              Inr resp \<Rightarrow> res = Inr resp \<and> tr' = tr @ replicate (Suc k) (use_cache, url)
            | Inl e \<Rightarrow> e = TypeError
                \<and> res = fst (get_checked env False url
                               (tr @ replicate (Suc k) (use_cache, url)))
                \<and> tr' = tr @ replicate (Suc k) (use_cache, url) @ [(False, url)]))"
proof -
  from assms have "fetch_attempts env use_cache url [1..RETRY] None tr = (res, tr')"
    by (simp add: fetch_def)
  from fetch_attempts_cases [OF this] obtain k where k: "k \<le> 3"
    and pre: "\<forall>j<k. \<exists>e. attempt_outcome env use_cache url tr j = Inl e \<and> e \<noteq> TypeError"
    and post: "if k = 3 then
        res = (if k = 0 then Inl (case None of None \<Rightarrow> TypeError | Some e \<Rightarrow> e)
               else attempt_outcome env use_cache url tr (k - 1))
        \<and> tr' = tr @ replicate k (use_cache, url)
      else (case attempt_outcome env use_cache url tr k of
              Inr resp \<Rightarrow> res = Inr resp \<and> tr' = tr @ replicate (Suc k) (use_cache, url)
            | Inl e \<Rightarrow> e = TypeError
                \<and> res = fst (get_checked env False url
                               (tr @ replicate (Suc k) (use_cache, url)))
                \<and> tr' = tr @ replicate (Suc k) (use_cache, url) @ [(False, url)])"
    unfolding length_attempts_RETRY by blast
  show ?thesis
  proof (intro exI [of _ k] conjI)
    show "k \<le> nat RETRY" using k by (simp add: nat_RETRY)
    show "\<forall>j<k. \<exists>e. attempt_outcome env use_cache url tr j = Inl e \<and> e \<noteq> TypeError"
      by (rule pre)
    show "if k = nat RETRY then
        res = attempt_outcome env use_cache url tr (nat RETRY - 1)
        \<and> tr' = tr @ replicate (nat RETRY) (use_cache, url)
      else (case attempt_outcome env use_cache url tr k of
              Inr resp \<Rightarrow> res = Inr resp \<and> tr' = tr @ replicate (Suc k) (use_cache, url)
            | Inl e \<Rightarrow> e = TypeError
                \<and> res = fst (get_checked env False url
                               (tr @ replicate (Suc k) (use_cache, url)))
                \<and> tr' = tr @ replicate (Suc k) (use_cache, url) @ [(False, url)])"
    proof (cases "k = 3")
      case True
      with post show ?thesis by (simp add: nat_RETRY)
    next
      case False
      with post show ?thesis by (simp add: nat_RETRY)
    qed
  qed
qed

lemma fetch_samples:
  "fetch flaky_env RETRY True [] [] = (Inr ok_response, replicate 3 (True, []))"
  "fetch failing_env RETRY True [] [] = (Inl (HTTPError 502), replicate 3 (True, []))"
  "fetch cache_broken_env RETRY True [] [] = (Inl Timeout, [(True, []), (False, [])])"
  by (simp_all add: fetch_def RETRY_def upto.simps get_checked_def session_get_def
        raise_for_status_def flaky_env_def failing_env_def cache_broken_env_def
        ok_response_def numeral_3_eq_3)

theorem fetch_bounded_retries_witness:
  "fetch flaky_env RETRY True [] [] = (Inr ok_response, replicate 3 (True, []))
   \<and> fetch failing_env RETRY True [] [] = (Inl (HTTPError 502), replicate 3 (True, []))
   \<and> fetch cache_broken_env RETRY True [] [] = (Inl Timeout, [(True, []), (False, [])])
   \<and> (\<exists>k\<le>nat RETRY.
         \<forall>j<k. \<exists>e. attempt_outcome flaky_env True [] [] j = Inl e \<and> e \<noteq> TypeError)"
proof -
  from fetch_bounded_retries [OF fetch_samples(1)]
  obtain k where "k \<le> nat RETRY"
    and "\<forall>j<k. \<exists>e. attempt_outcome flaky_env True [] [] j = Inl e \<and> e \<noteq> TypeError"
    by blast
  then have "\<exists>k\<le>nat RETRY.
         \<forall>j<k. \<exists>e. attempt_outcome flaky_env True [] [] j = Inl e \<and> e \<noteq> TypeError"
    by blast
  with fetch_samples show ?thesis by blast
qed

section \<open>Properties of the party set\<close>

lemma unique_parties_of_eq:
  "unique_parties_of ps = sorted_list_of_set {p \<in> set ps. p \<noteq> []}"
proof -
  have "{p \<in> set ps. p \<noteq> []} = set (filter (\<lambda>p. p \<noteq> []) ps)" by auto
  then show ?thesis
    by (simp only: unique_parties_of_def sorted_list_of_set_sort_remdups)
qed

text \<open>
  Claim C5. The party list of a bill is sorted, without duplicates, and holds exactly the
  non-empty labels observed; hence two lists of labels with the same elements, in any
  order and multiplicity, give the same party list.
\<close>

theorem party_set_sorted_distinct:
  "sorted (unique_parties_of ps) \<and> distinct (unique_parties_of ps)
   \<and> set (unique_parties_of ps) = {p \<in> set ps. p \<noteq> []}
   \<and> (\<forall>qs. set qs = set ps \<longrightarrow> unique_parties_of qs = unique_parties_of ps)"
  by (simp add: unique_parties_of_eq)

lemma unique_parties_samples:
  "unique_parties_of [ascii ''A'', ascii ''B'', ascii ''A''] = [ascii ''A'', ascii ''B'']"
  "unique_parties_of [ascii ''B'', [], ascii ''A'', ascii ''A''] = [ascii ''A'', ascii ''B'']"
  by (simp_all add: unique_parties_of_def ascii_def)

theorem party_set_sorted_distinct_witness:
  "unique_parties_of [ascii ''A'', ascii ''B'', ascii ''A''] = [ascii ''A'', ascii ''B'']
   \<and> unique_parties_of [ascii ''B'', [], ascii ''A'', ascii ''A''] = [ascii ''A'', ascii ''B'']
   \<and> unique_parties_of [ascii ''B'', ascii ''A'']
       = unique_parties_of [ascii ''A'', ascii ''B'', ascii ''A'']"
proof -
  have "set [ascii ''B'', ascii ''A''] = set [ascii ''A'', ascii ''B'', ascii ''A'']"
    by auto
  with party_set_sorted_distinct [of "[ascii ''A'', ascii ''B'', ascii ''A'']"]
  have "unique_parties_of [ascii ''B'', ascii ''A'']
       = unique_parties_of [ascii ''A'', ascii ''B'', ascii ''A'']"
    by blast
  with unique_parties_samples show ?thesis by simp
qed

section \<open>Properties of the driver\<close>

lemma py_index_None: "py_index xs x = None \<longleftrightarrow> x \<notin> set xs"
  by (induction xs) auto

lemma py_index_Some:
  "py_index xs x = Some k \<longleftrightarrow> k < length xs \<and> xs ! k = x \<and> (\<forall>j<k. xs ! j \<noteq> x)"
proof (induction xs arbitrary: k)
  case Nil
  then show ?case by simp
next
  case (Cons y ys)
  show ?case
  proof (cases "y = x")
    case True
    then show ?thesis by (cases k) auto
  next
    case False
    show ?thesis
    proof (cases k)
      case 0
      with False show ?thesis by auto
    next
      case (Suc m)
      have "(\<forall>j<Suc m. (y # ys) ! j \<noteq> x) \<longleftrightarrow> (\<forall>j<m. ys ! j \<noteq> x)"
        using False by (auto simp: less_Suc_eq_0_disj)
      with False Suc Cons.IH [of m] show ?thesis by auto
    qed
  qed
qed

lemma assign_contexts_nth:
  "i < length ids \<Longrightarrow>
     assign_contexts ids ! i = (ids ! i, if first21_idx ids \<le> i then 21 else 20)"
  by (simp add: assign_contexts_def nth_enumerate_eq)

lemma length_assign_contexts: "length (assign_contexts ids) = length ids"
  by (simp add: assign_contexts_def)

text \<open>
  Claim C6. The driver pairs every identifier with a base assembly by position: when the
  cutover identifier does not occur, every identifier gets 20; when its first occurrence
  is at position \<open>k\<close>, the identifiers before \<open>k\<close> get 20 and those from \<open>k\<close> on get 21.
\<close>

theorem context_by_position:
  "(\<forall>i<length ids. fst (assign_contexts ids ! i) = ids ! i)
   \<and> (FIRST_21_BILL_ID \<notin> set ids \<longrightarrow> (\<forall>i<length ids. snd (assign_contexts ids ! i) = 20))
   \<and> (\<forall>k. k < length ids \<and> ids ! k = FIRST_21_BILL_ID \<and> (\<forall>j<k. ids ! j \<noteq> FIRST_21_BILL_ID)
         \<longrightarrow> (\<forall>i<length ids. snd (assign_contexts ids ! i) = (if i < k then 20 else 21)))"
proof (intro conjI allI impI)
  fix i assume "i < length ids"
  then show "fst (assign_contexts ids ! i) = ids ! i" by (simp add: assign_contexts_nth)
next
  fix i assume "FIRST_21_BILL_ID \<notin> set ids" "i < length ids"
  then show "snd (assign_contexts ids ! i) = 20"
    by (simp add: assign_contexts_nth first21_idx_def py_index_None [THEN iffD2])
next
  fix k i
  assume k: "k < length ids \<and> ids ! k = FIRST_21_BILL_ID \<and> (\<forall>j<k. ids ! j \<noteq> FIRST_21_BILL_ID)"
    and i: "i < length ids"
  from k have "py_index ids FIRST_21_BILL_ID = Some k" by (simp add: py_index_Some)
  then have "first21_idx ids = k" by (simp add: first21_idx_def)
  with i show "snd (assign_contexts ids ! i) = (if i < k then 20 else 21)"
    by (auto simp: assign_contexts_nth)
qed

theorem context_by_position_witness:
  "sample_ids ! 1 = FIRST_21_BILL_ID
   \<and> snd (assign_contexts sample_ids ! 0) = 20
   \<and> snd (assign_contexts sample_ids ! 1) = 21
   \<and> snd (assign_contexts sample_ids ! 2) = 21
   \<and> snd (assign_contexts sample_ids ! 3) = 21
   \<and> snd (assign_contexts [ascii ''A'', ascii ''B''] ! 1) = 20"
proof -
  have h: "1 < length sample_ids \<and> sample_ids ! 1 = FIRST_21_BILL_ID
           \<and> (\<forall>j<1. sample_ids ! j \<noteq> FIRST_21_BILL_ID)"
    by (simp add: sample_ids_def FIRST_21_BILL_ID_def ascii_def)
  with context_by_position [of sample_ids]
  have a: "\<forall>i<length sample_ids.
             snd (assign_contexts sample_ids ! i) = (if i < 1 then 20 else 21)"
    by blast
  have len: "length sample_ids = 4" by (simp add: sample_ids_def)
  have n: "FIRST_21_BILL_ID \<notin> set [ascii ''A'', ascii ''B'']"
    by (simp add: FIRST_21_BILL_ID_def ascii_def)
  with context_by_position [of "[ascii ''A'', ascii ''B'']"]
  have b: "\<forall>i<length [ascii ''A'', ascii ''B''].
             snd (assign_contexts [ascii ''A'', ascii ''B''] ! i) = 20"
    by blast
  from a [rule_format, of 0] a [rule_format, of 1] a [rule_format, of 2]
       a [rule_format, of 3] b [rule_format, of 1] h len
  show ?thesis by simp
qed

section \<open>Properties of the page count\<close>

lemma py_max_eq_Max: "nums \<noteq> [] \<Longrightarrow> py_max nums = Max (set nums)"
proof -
  assume "nums \<noteq> []"
  then obtain x xs where n: "nums = x # xs" by (cases nums) auto
  have "foldl max x xs = fold max xs x"
    by (simp add: foldl_conv_fold max.commute)
  moreover have "Max (set (x # xs)) = fold max xs x"
    by (rule Max.set_eq_fold)
  ultimately show ?thesis using n by (simp add: py_max_def)
qed

lemma py_int_cases:
  "py_int dec g = (if length g \<le> 4300 then Inr (digits_value dec g) else Inl ValueError)"
  by (simp add: py_int_def INT_MAX_STR_DIGITS_def)

text \<open>The numbers of the links, when \<open>int\<close> accepts each of them.\<close>

lemma nav_numbers_loop_short:
  "\<forall>oc\<in>set ocs. \<forall>g. rsearch (pat_fn_search dec) oc = Some g \<longrightarrow> length g \<le> 4300 \<Longrightarrow>
     nav_numbers_loop dec ocs nums =
       Inr (nums @ concat (map (\<lambda>oc. case rsearch (pat_fn_search dec) oc of
                                        Some g \<Rightarrow> [digits_value dec g]
                                      | None \<Rightarrow> []) ocs))"
proof (induction ocs arbitrary: nums)
  case Nil
  then show ?case by simp
next
  case (Cons oc ocs)
  then show ?case by (cases "rsearch (pat_fn_search dec) oc") (simp_all add: py_int_cases)
qed

lemma nav_numbers_loop_Inl:
  "nav_numbers_loop dec ocs nums = Inl e \<Longrightarrow>
     e = ValueError
     \<and> (\<exists>oc\<in>set ocs. \<exists>g. rsearch (pat_fn_search dec) oc = Some g \<and> 4300 < length g)"
proof (induction ocs arbitrary: nums)
  case Nil
  then show ?case by simp
next
  case (Cons oc ocs)
  show ?case
  proof (cases "rsearch (pat_fn_search dec) oc")
    case None
    with Cons.prems have "nav_numbers_loop dec ocs nums = Inl e" by simp
    from Cons.IH [OF this] show ?thesis by auto
  next
    case (Some g)
    show ?thesis
    proof (cases "length g \<le> 4300")
      case True
      with Some Cons.prems
      have "nav_numbers_loop dec ocs (nums @ [digits_value dec g]) = Inl e"
        by (simp add: py_int_cases)
      from Cons.IH [OF this] show ?thesis by auto
    next
      case False
      with Some Cons.prems have "e = ValueError" by (simp add: py_int_cases)
      with Some False show ?thesis by auto
    qed
  qed
qed

lemma long_pager_search: "rsearch (pat_pages ascii_decimal) long_pager = Some long_digits"
proof -
  let ?w = "[54168, 51060, 51648]"
  let ?r = "[Star isspace, Lit ?w]"
  have d: "isdecimal ascii_decimal 49" by (simp add: isdecimal_def ascii_decimal_def)
  have tl: "\<forall>c\<in>set (replicate 4300 49). isdecimal ascii_decimal c"
    using d by (simp only: set_replicate_conv_if) simp
  have e: "rmatch ?r ?w ([49] @ replicate 4300 49) = Some ([49] @ replicate 4300 49)"
    by (simp add: isspace_def)
  have n: "?w = [] \<or> \<not> isdecimal ascii_decimal (hd ?w)"
    by (simp add: isdecimal_def ascii_decimal_def)
  from rmatch_GStar_run [OF tl n e]
  have "rmatch (GStar (isdecimal ascii_decimal) # ?r) (replicate 4300 49 @ ?w) [49]
          = Some (49 # replicate 4300 49)"
    by simp
  with d have "rmatch (pat_pages ascii_decimal) (47 # 49 # replicate 4300 49 @ ?w) []
                 = Some (49 # replicate 4300 49)"
    by (simp add: pat_pages_def isspace_def)
  then show ?thesis by (simp add: long_pager_def long_digits_def)
qed

text \<open>
  A page count is not always derived: for a hidden pager value that matches the pattern
  with 4301 digits, \<open>int\<close> raises \<open>ValueError\<close>, and \<open>parse_total_pages\<close> raises it to its
  caller.
\<close>

theorem total_pages_counterexample:
  "rsearch (pat_pages ascii_decimal) long_pager = Some long_digits
   \<and> parse_total_pages ascii_decimal (pager_soup (Some long_pager) []) = Inl ValueError"
  using long_pager_search long_digits_facts(1)
  by (simp add: parse_total_pages_def pager_soup_def empty_soup_def py_int_cases)

text \<open>
  Claim C8, as amended. When the hidden pager value matches the pattern, the total page
  count is the number its captured digits denote, provided there are at most 4300 of
  them; with more digits \<open>ValueError\<close> is raised. When the value is absent or does not
  match, the count is the greatest page number named by the navigation links, and 1
  when there is none (in particular when the page has no navigation links); the numbers
  named are those of the links that match the pattern, provided each has at most 4300
  digits, and otherwise \<open>ValueError\<close> is raised.
\<close>

theorem total_pages_sources:
  "(\<forall>v g. pager_pages_text s = Some v \<and> rsearch (pat_pages dec) v = Some g
       \<longrightarrow> parse_total_pages dec s =
             (if length g \<le> 4300 then Inr (digits_value dec g) else Inl ValueError))
   \<and> (pager_pages_text s = None
        \<or> (\<exists>v. pager_pages_text s = Some v \<and> rsearch (pat_pages dec) v = None)
       \<longrightarrow> (\<forall>nums. nav_numbers dec s = Inr nums
               \<longrightarrow> parse_total_pages dec s = Inr (if nums = [] then 1 else Max (set nums)))
           \<and> (\<forall>e. nav_numbers dec s = Inl e \<longrightarrow> parse_total_pages dec s = Inl e))
   \<and> ((\<forall>oc\<in>set (paging_onclicks s). \<forall>g.
          rsearch (pat_fn_search dec) oc = Some g \<longrightarrow> length g \<le> 4300)
       \<longrightarrow> nav_numbers dec s =
             Inr (concat (map (\<lambda>oc. case rsearch (pat_fn_search dec) oc of
                                      Some g \<Rightarrow> [digits_value dec g]
                                    | None \<Rightarrow> []) (paging_onclicks s))))
   \<and> (\<forall>e. nav_numbers dec s = Inl e
       \<longrightarrow> e = ValueError
           \<and> (\<exists>oc\<in>set (paging_onclicks s). \<exists>g.
                 rsearch (pat_fn_search dec) oc = Some g \<and> 4300 < length g))
   \<and> (paging_onclicks s = [] \<longrightarrow> nav_numbers dec s = Inr [])"
proof (intro conjI)
  show "\<forall>v g. pager_pages_text s = Some v \<and> rsearch (pat_pages dec) v = Some g
       \<longrightarrow> parse_total_pages dec s =
             (if length g \<le> 4300 then Inr (digits_value dec g) else Inl ValueError)"
    by (simp add: parse_total_pages_def py_int_cases)
  show "pager_pages_text s = None
        \<or> (\<exists>v. pager_pages_text s = Some v \<and> rsearch (pat_pages dec) v = None)
       \<longrightarrow> (\<forall>nums. nav_numbers dec s = Inr nums
               \<longrightarrow> parse_total_pages dec s = Inr (if nums = [] then 1 else Max (set nums)))
           \<and> (\<forall>e. nav_numbers dec s = Inl e \<longrightarrow> parse_total_pages dec s = Inl e)"
    by (auto simp: parse_total_pages_def pages_from_navigation_def py_max_eq_Max)
  show "(\<forall>oc\<in>set (paging_onclicks s). \<forall>g.
          rsearch (pat_fn_search dec) oc = Some g \<longrightarrow> length g \<le> 4300)
       \<longrightarrow> nav_numbers dec s =
             Inr (concat (map (\<lambda>oc. case rsearch (pat_fn_search dec) oc of
                                      Some g \<Rightarrow> [digits_value dec g]
                                    | None \<Rightarrow> []) (paging_onclicks s)))"
    using nav_numbers_loop_short [of "paging_onclicks s" dec "[]"]
    by (simp add: nav_numbers_def)
  show "\<forall>e. nav_numbers dec s = Inl e
       \<longrightarrow> e = ValueError
           \<and> (\<exists>oc\<in>set (paging_onclicks s). \<exists>g.
                 rsearch (pat_fn_search dec) oc = Some g \<and> 4300 < length g)"
    using nav_numbers_loop_Inl [of dec "paging_onclicks s" "[]"]
    by (simp add: nav_numbers_def)
  show "paging_onclicks s = [] \<longrightarrow> nav_numbers dec s = Inr []"
    by (simp add: nav_numbers_def)
qed

lemma total_pages_samples:
  "rsearch (pat_pages ascii_decimal) pages_1_of_2 = Some (ascii ''2'')"
  "digits_value ascii_decimal (ascii ''2'') = 2" "length (ascii ''2'') \<le> 4300"
  "nav_numbers ascii_decimal (pager_soup None [ascii ''fnSearch(3)'', ascii ''x'', ascii ''fnSearch(5)'']) = Inr [3, 5]"
  by (simp_all add: pat_pages_def pages_1_of_2_def ascii_def isspace_def isdecimal_def
        ascii_decimal_def py_int_cases digits_value_def nav_numbers_def pat_fn_search_def
        pager_soup_def empty_soup_def)

theorem total_pages_sources_witness:
  "parse_total_pages ascii_decimal (pager_soup (Some pages_1_of_2) [ascii ''fnSearch(7)''])
     = Inr 2
   \<and> parse_total_pages ascii_decimal
        (pager_soup None [ascii ''fnSearch(3)'', ascii ''x'', ascii ''fnSearch(5)'']) = Inr 5
   \<and> parse_total_pages ascii_decimal (pager_soup None []) = Inr 1
   \<and> parse_total_pages ascii_decimal (pager_soup (Some long_pager) []) = Inl ValueError"
proof -
  let ?s1 = "pager_soup (Some pages_1_of_2) [ascii ''fnSearch(7)'']"
  let ?s2 = "pager_soup None [ascii ''fnSearch(3)'', ascii ''x'', ascii ''fnSearch(5)'']"
  let ?s3 = "pager_soup None []"
  let ?s4 = "pager_soup (Some long_pager) []"
  have p1: "pager_pages_text ?s1 = Some pages_1_of_2"
    and p2: "pager_pages_text ?s2 = None" and p3: "pager_pages_text ?s3 = None"
    and n3: "paging_onclicks ?s3 = []"
    and p4: "pager_pages_text ?s4 = Some long_pager"
    by (simp_all add: pager_soup_def empty_soup_def)
  from total_pages_sources [of ?s1 ascii_decimal] p1 total_pages_samples(1,2,3)
  have a: "parse_total_pages ascii_decimal ?s1 = Inr 2" by simp
  from total_pages_sources [of ?s2 ascii_decimal] p2 total_pages_samples(4)
  have b: "parse_total_pages ascii_decimal ?s2 = Inr 5" by simp
  from total_pages_sources [of ?s3 ascii_decimal] p3 n3
  have c: "parse_total_pages ascii_decimal ?s3 = Inr 1" by simp
  from total_pages_sources [of ?s4 ascii_decimal] p4 long_pager_search long_digits_facts(1)
  have d: "parse_total_pages ascii_decimal ?s4 = Inl ValueError" by simp
  from a b c d show ?thesis by simp
qed

section \<open>Properties of the popup locator\<close>

lemma popup_prefix:
  "ascii ''https://likms.assembly.go.kr/bill/bi/popup/billProposer.do?'' @ ascii ''billId='' @ b
     = minimal_popup_url b"
  by (simp add: minimal_popup_url_def ascii_def)

lemma ascii_append: "ascii a @ ascii b = ascii (a @ b)"
  by (simp add: ascii_def)

lemma ascii_eq_Nil: "ascii s = [] \<longleftrightarrow> s = []"
  by (simp add: ascii_def)

lemma starts_with_append: "starts_with k (k @ t)"
  by (induction k) auto

lemma fetch_scripted_nil:
  "fetch (scripted []) RETRY c u tr = (Inl ConnectionError, tr @ replicate 3 (c, u))"
  by (simp add: fetch_def RETRY_def upto.simps get_checked_def session_get_def scripted_def
        numeral_3_eq_3)

lemma fetch_scripted_ok:
  "length tr < length outs \<Longrightarrow> outs ! length tr = ok_page s \<Longrightarrow>
     fetch (scripted outs) RETRY c u tr = (Inr \<lparr>status_code = 200, page = s\<rparr>, tr @ [(c, u)])"
  by (simp add: fetch_def RETRY_def upto.simps get_checked_def session_get_def scripted_def
        ok_page_def raise_for_status_def)

text \<open>
  The locator is not total: the detail page is fetched outside any handler, so when every
  attempt of that fetch fails, the fault leaves \<open>build_proposer_popup_url_from_detail\<close>
  and no URL is produced.
\<close>

theorem popup_url_never_fails_counterexample:
  "build_proposer_popup_url_from_detail (scripted []) sample_bill []
     = (Inl ConnectionError, replicate 3 (True, detail_url sample_bill))"
  by (simp add: build_proposer_popup_url_from_detail_def fetch_scripted_nil)

text \<open>
  Claim C9, as amended. A fault of the fetch of the detail page is the only failure of
  the locator, and it is passed on to the caller unchanged. Whenever that fetch
  succeeds, a URL is produced; it starts with the minimal URL built from the bill
  identifier, and it is exactly the minimal URL when the script call is absent from the
  page or carries neither a bill number nor a non-empty bill name.
\<close>

theorem popup_url_when_detail_fetched:
  "(\<forall>e tr'. fetch env RETRY True (detail_url bid) tr = (Inl e, tr')
       \<longrightarrow> build_proposer_popup_url_from_detail env bid tr = (Inl e, tr'))
   \<and> (\<forall>resp tr'. fetch env RETRY True (detail_url bid) tr = (Inr resp, tr')
       \<longrightarrow> (\<exists>url. build_proposer_popup_url_from_detail env bid tr = (Inr url, tr')
              \<and> starts_with (minimal_popup_url bid) url
              \<and> (proposer_onclick (page resp) = None \<longrightarrow> url = minimal_popup_url bid)
              \<and> (\<forall>oc. proposer_onclick (page resp) = Some oc
                     \<and> rsearch pat_bill_no oc = None
                     \<and> (rsearch pat_bill_name oc = None \<or> rsearch pat_bill_name oc = Some [])
                   \<longrightarrow> url = minimal_popup_url bid)))"
proof (intro conjI allI impI)
  fix e tr' assume "fetch env RETRY True (detail_url bid) tr = (Inl e, tr')"
  then show "build_proposer_popup_url_from_detail env bid tr = (Inl e, tr')"
    by (simp add: build_proposer_popup_url_from_detail_def)
next
  fix resp tr' assume f: "fetch env RETRY True (detail_url bid) tr = (Inr resp, tr')"
  show "\<exists>url. build_proposer_popup_url_from_detail env bid tr = (Inr url, tr')
              \<and> starts_with (minimal_popup_url bid) url
              \<and> (proposer_onclick (page resp) = None \<longrightarrow> url = minimal_popup_url bid)
              \<and> (\<forall>oc. proposer_onclick (page resp) = Some oc
                     \<and> rsearch pat_bill_no oc = None
                     \<and> (rsearch pat_bill_name oc = None \<or> rsearch pat_bill_name oc = Some [])
                   \<longrightarrow> url = minimal_popup_url bid)"
  proof (cases "proposer_onclick (page resp)")
    case None
    with f show ?thesis
      using starts_with_append [of "minimal_popup_url bid" "[]"]
      by (simp add: build_proposer_popup_url_from_detail_def)
  next
    case (Some oc)
    define bill_no where "bill_no = (case rsearch pat_bill_no oc of Some g \<Rightarrow> g | None \<Rightarrow> [])"
    define bill_nm where "bill_nm = (case rsearch pat_bill_name oc of Some g \<Rightarrow> g | None \<Rightarrow> [])"
    define url where "url = minimal_popup_url bid
        @ (if bill_no \<noteq> [] then ascii ''&billNo='' @ bill_no else [])
        @ (if bill_nm \<noteq> [] then ascii ''&billName='' @ bill_nm else [])"
    from f Some have b: "build_proposer_popup_url_from_detail env bid tr = (Inr url, tr')"
      by (simp add: build_proposer_popup_url_from_detail_def Let_def popup_prefix
            url_def bill_no_def bill_nm_def)
    have s: "starts_with (minimal_popup_url bid) url"
      unfolding url_def by (rule starts_with_append)
    have m: "rsearch pat_bill_no oc = None
             \<and> (rsearch pat_bill_name oc = None \<or> rsearch pat_bill_name oc = Some [])
             \<longrightarrow> url = minimal_popup_url bid"
      by (auto simp: url_def bill_no_def bill_nm_def)
    from b s m Some show ?thesis by auto
  qed
qed

lemma sample_onclick_matches:
  "rsearch pat_bill_no sample_onclick = Some (ascii ''21'')"
  "rsearch pat_bill_name sample_onclick = None"
  by (simp_all add: pat_bill_no_def pat_bill_name_def sample_onclick_def ascii_def isspace_def)

theorem popup_url_when_detail_fetched_witness:
  "build_proposer_popup_url_from_detail (scripted []) sample_bill []
     = (Inl ConnectionError, replicate 3 (True, detail_url sample_bill))
   \<and> build_proposer_popup_url_from_detail (scripted [ok_page empty_soup]) sample_bill []
     = (Inr (minimal_popup_url sample_bill), [(True, detail_url sample_bill)])
   \<and> build_proposer_popup_url_from_detail
         (scripted [ok_page (empty_soup\<lparr>proposer_onclick := Some sample_onclick\<rparr>)])
         sample_bill []
     = (Inr (minimal_popup_url sample_bill @ ascii ''&billNo=21''),
        [(True, detail_url sample_bill)])"
proof -
  have f0: "fetch (scripted []) RETRY True (detail_url sample_bill) []
              = (Inl ConnectionError, replicate 3 (True, detail_url sample_bill))"
    using fetch_scripted_nil [of True "detail_url sample_bill" "[]"] by simp
  have f1: "fetch (scripted [ok_page empty_soup]) RETRY True (detail_url sample_bill) []
              = (Inr \<lparr>status_code = 200, page = empty_soup\<rparr>, [(True, detail_url sample_bill)])"
    using fetch_scripted_ok [of "[]" "[ok_page empty_soup]" empty_soup True] by simp
  have n: "proposer_onclick (page \<lparr>status_code = 200, page = empty_soup\<rparr>) = None"
    by (simp add: empty_soup_def)
  from popup_url_when_detail_fetched [of "scripted []" sample_bill "[]"] f0
  have a: "build_proposer_popup_url_from_detail (scripted []) sample_bill []
     = (Inl ConnectionError, replicate 3 (True, detail_url sample_bill))"
    by blast
  from popup_url_when_detail_fetched [of "scripted [ok_page empty_soup]" sample_bill "[]"] f1
  obtain url where
    "build_proposer_popup_url_from_detail (scripted [ok_page empty_soup]) sample_bill []
       = (Inr url, [(True, detail_url sample_bill)])"
    and "proposer_onclick (page \<lparr>status_code = 200, page = empty_soup\<rparr>) = None
          \<longrightarrow> url = minimal_popup_url sample_bill"
    by blast
  with n have b: "build_proposer_popup_url_from_detail (scripted [ok_page empty_soup]) sample_bill []
     = (Inr (minimal_popup_url sample_bill), [(True, detail_url sample_bill)])"
    by simp
  have c: "build_proposer_popup_url_from_detail
         (scripted [ok_page (empty_soup\<lparr>proposer_onclick := Some sample_onclick\<rparr>)])
         sample_bill []
     = (Inr (minimal_popup_url sample_bill @ ascii ''&billNo=21''),
        [(True, detail_url sample_bill)])"
    using fetch_scripted_ok
            [of "[]" "[ok_page (empty_soup\<lparr>proposer_onclick := Some sample_onclick\<rparr>)]"
               "empty_soup\<lparr>proposer_onclick := Some sample_onclick\<rparr>" True]
    by (simp add: build_proposer_popup_url_from_detail_def sample_onclick_matches
          popup_prefix ascii_append ascii_eq_Nil)
  from a b c show ?thesis by simp
qed

section \<open>Properties of the paginated scraper\<close>

lemma try_candidates_source:
  "try_candidates env base pg cs t = (Inr s, t') \<Longrightarrow>
     (\<exists>c\<in>set cs. \<exists>t1 resp. fetch env RETRY True (page_url base c pg) t1 = (Inr resp, t')
          \<and> page resp = s \<and> li_member_hrefs s \<noteq> [])
     \<or> (\<exists>t1 resp. fetch env RETRY True base t1 = (Inr resp, t') \<and> page resp = s)"
proof (induction cs arbitrary: t)
  case Nil
  then show ?case by (auto split: prod.splits sum.splits)
next
  case (Cons c cs)
  show ?case
  proof (cases "fetch env RETRY True (page_url base c pg) t")
    case (Pair r t1)
    show ?thesis
    proof (cases r)
      case (Inl e)
      with Pair Cons.prems have "try_candidates env base pg cs t1 = (Inr s, t')" by simp
      from Cons.IH [OF this] show ?thesis by auto
    next
      case (Inr resp)
      show ?thesis
      proof (cases "li_member_hrefs (page resp) \<noteq> []")
        case True
        with Pair Inr Cons.prems have "s = page resp" "t' = t1" by auto
        with Pair Inr True show ?thesis by auto
      next
        case False
        with Pair Inr Cons.prems have "try_candidates env base pg cs t1 = (Inr s, t')" by simp
        from Cons.IH [OF this] show ?thesis by auto
      qed
    qed
  qed
qed

lemma extract_soup_foldl:
  "foldl (\<lambda>a s. extract_soup s a) (l, p) soups =
     (l @ concat (map (\<lambda>s. filter (\<lambda>h. h \<noteq> []) (member_hrefs s)) soups),
      p @ concat (map jdang_texts soups))"
  by (induction soups arbitrary: l p) (simp_all add: extract_soup_def)

lemma collect_pages_chain:
  "collect_pages env bid base pgs acc t = (Inr acc', t') \<Longrightarrow>
   \<exists>soups trs. length soups = length pgs \<and> length trs = Suc (length pgs)
     \<and> trs ! 0 = t \<and> trs ! length pgs = t'
     \<and> (\<forall>k<length pgs. proposer_soup env bid base (pgs ! k) (trs ! k)
                          = (Inr (soups ! k), trs ! Suc k))
     \<and> acc' = foldl (\<lambda>a s. extract_soup s a) acc soups"
proof (induction pgs arbitrary: acc t)
  case Nil
  then show ?case by (intro exI [of _ "[]"] exI [of _ "[t]"]) simp
next
  case (Cons p ps)
  from Cons.prems obtain s t1 where ps: "proposer_soup env bid base p t = (Inr s, t1)"
    and rest: "collect_pages env bid base ps (extract_soup s acc) t1 = (Inr acc', t')"
    by (auto split: prod.splits sum.splits)
  from Cons.IH [OF rest] obtain soups trs where
    l: "length soups = length ps" "length trs = Suc (length ps)"
    and e: "trs ! 0 = t1" "trs ! length ps = t'"
    and c: "\<forall>k<length ps. proposer_soup env bid base (ps ! k) (trs ! k)
                          = (Inr (soups ! k), trs ! Suc k)"
    and a: "acc' = foldl (\<lambda>a s. extract_soup s a) (extract_soup s acc) soups"
    by blast
  have "\<forall>k<length (p # ps). proposer_soup env bid base ((p # ps) ! k) ((t # trs) ! k)
                          = (Inr ((s # soups) ! k), (t # trs) ! Suc k)"
  proof (intro allI impI)
    fix k assume "k < length (p # ps)"
    then show "proposer_soup env bid base ((p # ps) ! k) ((t # trs) ! k)
                          = (Inr ((s # soups) ! k), (t # trs) ! Suc k)"
      using ps e c by (cases k) auto
  qed
  with l e a show ?case
    by (intro exI [of _ "s # soups"] exI [of _ "t # trs"]) simp
qed

text \<open>
  Claim C7, as amended. The scraper takes the pages one by one, in the order 1, 2, \<dots>,
  up to the page count read from page 1 (at least page 1), each page through its own
  call of \<open>proposer_soup\<close>, the calls made one after the other. Every call probes the
  candidate parameter names anew: the page it returns was fetched under some candidate
  name with that page number and shows a member list, or it is the page at the base
  URL. The entries of every returned page are appended exactly once, in page order, and
  the sponsor count is the number of links.
\<close>

theorem pages_probed_one_by_one:
  assumes "collect_members_from_popup dec env bid tr = (Inr (links, ps, n), tr')"
  shows "\<exists>base tr1 soups trs.
     build_proposer_popup_url_from_detail env bid tr = (Inr base, tr1)
     \<and> soups \<noteq> []
     \<and> (\<exists>total. parse_total_pages dec (hd soups) = Inr total
                  \<and> int (length soups) = max 1 total)
     \<and> length trs = Suc (length soups) \<and> trs ! 0 = tr1 \<and> trs ! length soups = tr'
     \<and> (\<forall>k<length soups.
           proposer_soup env bid base (int k + 1) (trs ! k) = (Inr (soups ! k), trs ! Suc k)
           \<and> ((\<exists>c\<in>set candidates. \<exists>t1 resp.
                  fetch env RETRY True (page_url base c (int k + 1)) t1 = (Inr resp, trs ! Suc k)
                  \<and> page resp = soups ! k \<and> li_member_hrefs (soups ! k) \<noteq> [])
               \<or> (\<exists>t1 resp. fetch env RETRY True base t1 = (Inr resp, trs ! Suc k)
                     \<and> page resp = soups ! k)))
     \<and> links = concat (map (\<lambda>s. filter (\<lambda>h. h \<noteq> []) (member_hrefs s)) soups)
     \<and> ps = concat (map jdang_texts soups)
     \<and> n = length links"
proof -
  from assms obtain base tr1 soup1 tr2 total where
    b: "build_proposer_popup_url_from_detail env bid tr = (Inr base, tr1)"
    and s1: "proposer_soup env bid base 1 tr1 = (Inr soup1, tr2)"
    and tp: "parse_total_pages dec soup1 = Inr total"
    and cp: "collect_pages env bid base [2..total]
               (extract_soup soup1 ([], [])) tr2 = (Inr (links, ps), tr')"
    and n: "n = length links"
    by (auto simp: collect_members_from_popup_def Let_def split: prod.splits sum.splits)
  let ?pgs = "[2..total]"
  from collect_pages_chain [OF cp] obtain soups trs where
    l: "length soups = length ?pgs" "length trs = Suc (length ?pgs)"
    and e: "trs ! 0 = tr2" "trs ! length ?pgs = tr'"
    and c: "\<forall>k<length ?pgs. proposer_soup env bid base (?pgs ! k) (trs ! k)
                          = (Inr (soups ! k), trs ! Suc k)"
    and a: "(links, ps) = foldl (\<lambda>a s. extract_soup s a) (extract_soup soup1 ([], [])) soups"
    by blast
  let ?soups = "soup1 # soups" and ?trs = "tr1 # trs"
  have len: "\<exists>total. parse_total_pages dec (hd ?soups) = Inr total
                  \<and> int (length ?soups) = max 1 total"
    using l tp by simp
  have step: "\<forall>k<length ?soups.
      proposer_soup env bid base (int k + 1) (?trs ! k) = (Inr (?soups ! k), ?trs ! Suc k)"
  proof (intro allI impI)
    fix k assume k: "k < length ?soups"
    show "proposer_soup env bid base (int k + 1) (?trs ! k) = (Inr (?soups ! k), ?trs ! Suc k)"
    proof (cases k)
      case 0
      with s1 e show ?thesis by simp
    next
      case (Suc m)
      with k l have m: "m < length ?pgs" by simp
      then have "?pgs ! m = 2 + int m" by simp
      with c m Suc show ?thesis by (simp add: add.commute)
    qed
  qed
  have src: "\<forall>k<length ?soups.
      (\<exists>c\<in>set candidates. \<exists>t1 resp.
          fetch env RETRY True (page_url base c (int k + 1)) t1 = (Inr resp, ?trs ! Suc k)
          \<and> page resp = ?soups ! k \<and> li_member_hrefs (?soups ! k) \<noteq> [])
      \<or> (\<exists>t1 resp. fetch env RETRY True base t1 = (Inr resp, ?trs ! Suc k)
            \<and> page resp = ?soups ! k)"
  proof (intro allI impI)
    fix k assume "k < length ?soups"
    with step have "try_candidates env base (int k + 1) candidates (?trs ! k)
                      = (Inr (?soups ! k), ?trs ! Suc k)"
      by (simp add: proposer_soup_def)
    from try_candidates_source [OF this]
    show "(\<exists>c\<in>set candidates. \<exists>t1 resp.
          fetch env RETRY True (page_url base c (int k + 1)) t1 = (Inr resp, ?trs ! Suc k)
          \<and> page resp = ?soups ! k \<and> li_member_hrefs (?soups ! k) \<noteq> [])
      \<or> (\<exists>t1 resp. fetch env RETRY True base t1 = (Inr resp, ?trs ! Suc k)
            \<and> page resp = ?soups ! k)" .
  qed
  have acc: "links = concat (map (\<lambda>s. filter (\<lambda>h. h \<noteq> []) (member_hrefs s)) ?soups)"
       "ps = concat (map jdang_texts ?soups)"
  proof -
    have "extract_soup soup1 ([], []) =
            (filter (\<lambda>h. h \<noteq> []) (member_hrefs soup1), jdang_texts soup1)"
      by (simp add: extract_soup_def)
    with a have "(links, ps) =
        (filter (\<lambda>h. h \<noteq> []) (member_hrefs soup1)
           @ concat (map (\<lambda>s. filter (\<lambda>h. h \<noteq> []) (member_hrefs s)) soups),
         jdang_texts soup1 @ concat (map jdang_texts soups))"
      by (simp only: extract_soup_foldl)
    then show "links = concat (map (\<lambda>s. filter (\<lambda>h. h \<noteq> []) (member_hrefs s)) ?soups)"
      and "ps = concat (map jdang_texts ?soups)"
      by simp_all
  qed
  show ?thesis
  proof (intro exI [of _ base] exI [of _ tr1] exI [of _ ?soups] exI [of _ ?trs] conjI)
    show "build_proposer_popup_url_from_detail env bid tr = (Inr base, tr1)" by (rule b)
    show "?soups \<noteq> []" by simp
    show "\<exists>total. parse_total_pages dec (hd ?soups) = Inr total
                  \<and> int (length ?soups) = max 1 total" by (rule len)
    show "length ?trs = Suc (length ?soups)" using l by simp
    show "?trs ! 0 = tr1" by simp
    show "?trs ! length ?soups = tr'" using l e by simp
    show "\<forall>k<length ?soups.
           proposer_soup env bid base (int k + 1) (?trs ! k) = (Inr (?soups ! k), ?trs ! Suc k)
           \<and> ((\<exists>c\<in>set candidates. \<exists>t1 resp.
                  fetch env RETRY True (page_url base c (int k + 1)) t1 = (Inr resp, ?trs ! Suc k)
                  \<and> page resp = ?soups ! k \<and> li_member_hrefs (?soups ! k) \<noteq> [])
               \<or> (\<exists>t1 resp. fetch env RETRY True base t1 = (Inr resp, ?trs ! Suc k)
                     \<and> page resp = ?soups ! k))"
      using step src by blast
    show "links = concat (map (\<lambda>s. filter (\<lambda>h. h \<noteq> []) (member_hrefs s)) ?soups)"
      by (rule acc)
    show "ps = concat (map jdang_texts ?soups)" by (rule acc)
    show "n = length links" by (rule n)
  qed
qed


lemma list_page_total:
  "parse_total_pages ascii_decimal (list_page hs ls (Some pages_1_of_2)) = Inr 2"
  "parse_total_pages ascii_decimal (list_page hs ls None) = Inr 1"
  by (simp_all add: parse_total_pages_def pages_from_navigation_def list_page_def
        empty_soup_def total_pages_samples py_int_cases nav_numbers_def)

lemma list_page_fields:
  "li_member_hrefs (list_page hs ls pg) = hs" "member_hrefs (list_page hs ls pg) = hs"
  "jdang_texts (list_page hs ls pg) = ls"
  "li_member_hrefs empty_soup = []" "proposer_onclick empty_soup = None"
  by (simp_all add: list_page_def empty_soup_def)

lemma members_nonempty: "member_a \<noteq> []" "member_b \<noteq> []"
  by (simp_all add: member_a_def member_b_def ascii_def)

lemmas run_simps =
  collect_members_from_popup_def build_proposer_popup_url_from_detail_def proposer_soup_def
  candidates_def fetch_def RETRY_def upto.simps get_checked_def session_get_def scripted_def
  ok_page_def raise_for_status_def list_page_total list_page_fields members_nonempty
  extract_soup_def Let_def

lemma reprobe_run:
  "collect_members_from_popup ascii_decimal (scripted reprobe_script) sample_bill [] =
     (Inr ([member_a, member_b], [party_p, party_q], 2),
      [(True, detail_url sample_bill),
       (True, page_url (minimal_popup_url sample_bill) (ascii ''pageIndex'') 1),
       (True, page_url (minimal_popup_url sample_bill) (ascii ''pageIndex'') 2),
       (True, page_url (minimal_popup_url sample_bill) (ascii ''pageNo'') 2)])"
  by (simp add: run_simps reprobe_script_def)

lemma fallback_run:
  "fst (collect_members_from_popup ascii_decimal (scripted fallback_script) sample_bill []) =
     Inr ([member_a, member_a], [party_p, party_p], 2)
   \<and> last (snd (collect_members_from_popup ascii_decimal (scripted fallback_script)
                   sample_bill []))
       = (True, minimal_popup_url sample_bill)"
  by (simp add: run_simps fallback_script_def)

lemma page_url_differs:
  "page_url (minimal_popup_url sample_bill) (ascii ''pageNo'') 2
     \<noteq> page_url (minimal_popup_url sample_bill) (ascii ''pageIndex'') 2"
  by (simp add: page_url_def ascii_def)


text \<open>
  The parameter name is not fixed after page 1: on a site that serves page 1 under
  \<open>pageIndex\<close> and shows no member list for \<open>pageIndex=2\<close>, the scraper goes on to
  request \<open>pageNo=2\<close> and takes the members of that page. And when no candidate shows a
  member list for page 2, the base URL is fetched and the entries of the first page are
  taken a second time.
\<close>

theorem fixed_parameter_counterexample:
  "collect_members_from_popup ascii_decimal (scripted reprobe_script) sample_bill [] =
     (Inr ([member_a, member_b], [party_p, party_q], 2),
      [(True, detail_url sample_bill),
       (True, page_url (minimal_popup_url sample_bill) (ascii ''pageIndex'') 1),
       (True, page_url (minimal_popup_url sample_bill) (ascii ''pageIndex'') 2),
       (True, page_url (minimal_popup_url sample_bill) (ascii ''pageNo'') 2)])
   \<and> page_url (minimal_popup_url sample_bill) (ascii ''pageNo'') 2
       \<noteq> page_url (minimal_popup_url sample_bill) (ascii ''pageIndex'') 2
   \<and> fst (collect_members_from_popup ascii_decimal (scripted fallback_script) sample_bill [])
       = Inr ([member_a, member_a], [party_p, party_p], 2)
   \<and> last (snd (collect_members_from_popup ascii_decimal (scripted fallback_script)
                   sample_bill []))
       = (True, minimal_popup_url sample_bill)"
  using reprobe_run fallback_run page_url_differs by simp

theorem pages_probed_one_by_one_witness:
  "collect_members_from_popup ascii_decimal (scripted reprobe_script) sample_bill [] =
     (Inr ([member_a, member_b], [party_p, party_q], 2),
      [(True, detail_url sample_bill),
       (True, page_url (minimal_popup_url sample_bill) (ascii ''pageIndex'') 1),
       (True, page_url (minimal_popup_url sample_bill) (ascii ''pageIndex'') 2),
       (True, page_url (minimal_popup_url sample_bill) (ascii ''pageNo'') 2)])
   \<and> (\<exists>base tr1 soups.
         build_proposer_popup_url_from_detail (scripted reprobe_script) sample_bill []
           = (Inr base, tr1)
         \<and> soups \<noteq> []
         \<and> (\<exists>total. parse_total_pages ascii_decimal (hd soups) = Inr total
                      \<and> int (length soups) = max 1 total)
         \<and> [member_a, member_b]
             = concat (map (\<lambda>s. filter (\<lambda>h. h \<noteq> []) (member_hrefs s)) soups))"
proof -
  from pages_probed_one_by_one [OF reprobe_run]
  obtain base tr1 soups where
    "build_proposer_popup_url_from_detail (scripted reprobe_script) sample_bill []
       = (Inr base, tr1)"
    "soups \<noteq> []"
    "\<exists>total. parse_total_pages ascii_decimal (hd soups) = Inr total
              \<and> int (length soups) = max 1 total"
    "[member_a, member_b] = concat (map (\<lambda>s. filter (\<lambda>h. h \<noteq> []) (member_hrefs s)) soups)"
    by blast
  then have "\<exists>base tr1 soups.
         build_proposer_popup_url_from_detail (scripted reprobe_script) sample_bill []
           = (Inr base, tr1)
         \<and> soups \<noteq> []
         \<and> (\<exists>total. parse_total_pages ascii_decimal (hd soups) = Inr total
                      \<and> int (length soups) = max 1 total)
         \<and> [member_a, member_b]
             = concat (map (\<lambda>s. filter (\<lambda>h. h \<noteq> []) (member_hrefs s)) soups)"
    by blast
  with reprobe_run show ?thesis by (intro conjI)
qed

section \<open>Properties of the bill aggregator and the driver loop\<close>

lemma process_one_bill_cases:
  "(\<exists>e tr1. process_one_bill dec env bid base tr = (error_result bid e, tr1))
   \<or> (\<exists>n avg ps tr1. process_one_bill dec env bid base tr =
         (\<lparr>bill_id = bid, num_proposers = Some n, avg_seniority = avg, parties = ps,
           error = None\<rparr>, tr1))"
  by (auto simp: process_one_bill_def Let_def split: prod.splits sum.splits)

lemma process_one_bill_id: "bill_id (fst (process_one_bill dec env bid base tr)) = bid"
  using process_one_bill_cases [of dec env bid base tr]
  by (auto simp: error_result_def)

lemma process_one_bill_error_shape:
  "error (fst (process_one_bill dec env bid base tr)) \<noteq> None \<Longrightarrow>
     num_proposers (fst (process_one_bill dec env bid base tr)) = None
     \<and> avg_seniority (fst (process_one_bill dec env bid base tr)) = None
     \<and> parties (fst (process_one_bill dec env bid base tr)) = None"
  using process_one_bill_cases [of dec env bid base tr]
  by (auto simp: error_result_def)

lemma process_all_ids: "map bill_id (fst (process_all dec env pairs tr)) = map fst pairs"
proof (induction pairs arbitrary: tr)
  case Nil
  then show ?case by simp
next
  case (Cons p pairs)
  obtain bid base where p: "p = (bid, base)" by (cases p)
  obtain r tr1 where r: "process_one_bill dec env bid base tr = (r, tr1)"
    by (cases "process_one_bill dec env bid base tr")
  obtain rs tr2 where rs: "process_all dec env pairs tr1 = (rs, tr2)"
    by (cases "process_all dec env pairs tr1")
  from Cons.IH [of tr1] rs have "map bill_id rs = map fst pairs" by simp
  moreover from r process_one_bill_id [of dec env bid base tr] have "bill_id r = bid" by simp
  ultimately show ?case using p r rs by simp
qed

lemma process_all_nth:
  "i < length pairs \<Longrightarrow>
     \<exists>tr_i. fst (process_all dec env pairs tr) ! i
              = fst (process_one_bill dec env (fst (pairs ! i)) (snd (pairs ! i)) tr_i)"
proof (induction pairs arbitrary: tr i)
  case Nil
  then show ?case by simp
next
  case (Cons p pairs)
  obtain bid base where p: "p = (bid, base)" by (cases p)
  obtain r tr1 where r: "process_one_bill dec env bid base tr = (r, tr1)"
    by (cases "process_one_bill dec env bid base tr")
  obtain rs tr2 where rs: "process_all dec env pairs tr1 = (rs, tr2)"
    by (cases "process_all dec env pairs tr1")
  show ?case
  proof (cases i)
    case 0
    with p r rs show ?thesis by (intro exI [of _ tr]) simp
  next
    case (Suc j)
    with Cons.prems have "j < length pairs" by simp
    from Cons.IH [OF this, of tr1] rs Suc p r show ?thesis by simp
  qed
qed

lemma map_fst_assign_contexts: "map fst (assign_contexts ids) = ids"
  by (rule nth_equalityI) (simp_all add: length_assign_contexts assign_contexts_nth)

text \<open>
  Claim C3. The driver returns exactly one record per input identifier, in input order:
  the record at position \<open>i\<close> is the one \<open>process_one_bill\<close> returns for the
  identifier at position \<open>i\<close> and its base assembly. A fault raised while the members
  of a bill are collected is caught by \<open>process_one_bill\<close>, which returns a record with
  the fault as error and no count, average or parties, and every record that carries an
  error has these three fields absent; the bills after it are processed all the same.
\<close>

theorem one_record_per_bill:
  "length (fst (main_results dec env ids tr)) = length ids
   \<and> map bill_id (fst (main_results dec env ids tr)) = ids
   \<and> (\<forall>i<length ids. \<exists>tr_i.
         fst (main_results dec env ids tr) ! i
           = fst (process_one_bill dec env (ids ! i) (snd (assign_contexts ids ! i)) tr_i))
   \<and> (\<forall>bid base tr0 e tr1.
         collect_members_from_popup dec env bid tr0 = (Inl e, tr1)
         \<longrightarrow> process_one_bill dec env bid base tr0 =
               (\<lparr>bill_id = bid, num_proposers = None, avg_seniority = None, parties = None,
                 error = Some e\<rparr>, tr1))
   \<and> (\<forall>bid base tr0.
         error (fst (process_one_bill dec env bid base tr0)) \<noteq> None
         \<longrightarrow> num_proposers (fst (process_one_bill dec env bid base tr0)) = None
             \<and> avg_seniority (fst (process_one_bill dec env bid base tr0)) = None
             \<and> parties (fst (process_one_bill dec env bid base tr0)) = None)"
proof (intro conjI allI impI)
  have m: "map bill_id (fst (main_results dec env ids tr)) = ids"
    by (simp add: main_results_def process_all_ids map_fst_assign_contexts)
  then show "map bill_id (fst (main_results dec env ids tr)) = ids" .
  from m have "length (map bill_id (fst (main_results dec env ids tr))) = length ids"
    by simp
  then show "length (fst (main_results dec env ids tr)) = length ids" by simp
next
  fix i assume i: "i < length ids"
  then have "i < length (assign_contexts ids)" by (simp add: length_assign_contexts)
  from process_all_nth [OF this, of dec env tr] i
  show "\<exists>tr_i. fst (main_results dec env ids tr) ! i
           = fst (process_one_bill dec env (ids ! i) (snd (assign_contexts ids ! i)) tr_i)"
    by (simp add: main_results_def assign_contexts_nth)
next
  fix bid base tr0 e tr1
  assume "collect_members_from_popup dec env bid tr0 = (Inl e, tr1)"
  then show "process_one_bill dec env bid base tr0 =
               (\<lparr>bill_id = bid, num_proposers = None, avg_seniority = None, parties = None,
                 error = Some e\<rparr>, tr1)"
    by (simp add: process_one_bill_def error_result_def)
next
  fix bid base tr0
  assume e: "error (fst (process_one_bill dec env bid base tr0)) \<noteq> None"
  from process_one_bill_error_shape [OF e]
  show "num_proposers (fst (process_one_bill dec env bid base tr0)) = None"
    and "avg_seniority (fst (process_one_bill dec env bid base tr0)) = None"
    and "parties (fst (process_one_bill dec env bid base tr0)) = None"
    by simp_all
qed

lemma average_one: "average_seniority [1] = Inr (Some 1)"
  by code_simp

lemma outage_run:
  "fst (main_results ascii_decimal (scripted outage_script) [sample_bill, second_bill] []) =
     [\<lparr>bill_id = sample_bill, num_proposers = None, avg_seniority = None, parties = None,
       error = Some Timeout\<rparr>,
      \<lparr>bill_id = second_bill, num_proposers = Some 1, avg_seniority = Some 1,
       parties = Some party_p, error = None\<rparr>]"
proof -
  have n: "FIRST_21_BILL_ID \<noteq> sample_bill" "FIRST_21_BILL_ID \<noteq> second_bill"
    by (simp_all add: FIRST_21_BILL_ID_def sample_bill_def second_bill_def ascii_def)
  have a: "assign_contexts [sample_bill, second_bill] = [(sample_bill, 20), (second_bill, 20)]"
    using n by (auto simp: assign_contexts_def first21_idx_def enumerate_eq_zip upt_rec)
  have p: "party_p \<noteq> []" by (simp add: party_p_def ascii_def)
  have u: "unique_parties_of [party_p] = [party_p]"
    using p by (simp add: unique_parties_of_def)
  have s: "adjust_seniority text_first_next 1 20 = 1"
    by (simp add: adjust_seniority_eq marker_samples)
  show ?thesis
    by (simp add: main_results_def a process_one_bill_def run_simps outage_script_def
          error_result_def parse_member_seniority_def profile_text_dd raw_seniority_samples
          text_samples_nonempty s average_one u p)
qed

theorem one_record_per_bill_witness:
  "fst (main_results ascii_decimal (scripted outage_script) [sample_bill, second_bill] []) =
     [\<lparr>bill_id = sample_bill, num_proposers = None, avg_seniority = None, parties = None,
       error = Some Timeout\<rparr>,
      \<lparr>bill_id = second_bill, num_proposers = Some 1, avg_seniority = Some 1,
       parties = Some party_p, error = None\<rparr>]
   \<and> length (fst (main_results ascii_decimal (scripted outage_script)
                    [sample_bill, second_bill] [])) = 2
   \<and> map bill_id (fst (main_results ascii_decimal (scripted outage_script)
                    [sample_bill, second_bill] [])) = [sample_bill, second_bill]"
  using one_record_per_bill
          [of ascii_decimal "scripted outage_script" "[sample_bill, second_bill]" "[]"]
        outage_run
  by simp

section \<open>Properties of the average\<close>

lemma tie_sample_average:
  "average_seniority tie_sample = Inr (Some (1503076375634903 / 562949953421312))"
  by code_simp

lemma tie_sample_mean: "mean tie_sample = 107 / 40"
  by code_simp

lemma tie_sample_decimal:
  "round_half_even (mean tie_sample * 100) = 268"
  "round_half_up (mean tie_sample * 100) = 268"
  by code_simp+

lemma double_267_below:
  "(1503076375634903 / 562949953421312 :: rat) \<noteq> 6034823500676465 / 2251799813685248"
  "(1503076375634903 / 562949953421312 :: rat) < 268 / 100 - 99 / 10000"
  by simp_all

lemma double_268: "round_to_double (268 / 100) = 6034823500676465 / 2251799813685248"
  by code_simp

text \<open>
  The average is not always the exact mean rounded to two decimals. For forty sponsors
  with 107 terms the mean is 2.675; rounded to two decimals that is 2.68, with ties
  upwards as well as with ties to even. The double nearest to 2.675 lies below it, so
  \<open>round\<close> returns the double nearest to 2.67.
\<close>

theorem average_rounding_counterexample:
  "average_seniority tie_sample = Inr (Some (1503076375634903 / 562949953421312))
   \<and> mean tie_sample = 107 / 40
   \<and> round_half_even (mean tie_sample * 100) = 268
   \<and> round_half_up (mean tie_sample * 100) = 268
   \<and> round_to_double (268 / 100) = 6034823500676465 / 2251799813685248
   \<and> (1503076375634903 / 562949953421312 :: rat) \<noteq> 6034823500676465 / 2251799813685248
   \<and> (1503076375634903 / 562949953421312 :: rat) < 268 / 100 - 99 / 10000"
  by (intro conjI tie_sample_average tie_sample_mean tie_sample_decimal double_268
        double_267_below)

lemma average_seniority_mset:
  "mset ys = mset xs \<Longrightarrow> average_seniority ys = average_seniority xs"
proof -
  assume m: "mset ys = mset xs"
  then have "sum_list ys = sum_list xs"
    by (metis sum_mset_sum_list)
  moreover from m have "length ys = length xs"
    by (metis size_mset)
  moreover from m have "ys = [] \<longleftrightarrow> xs = []"
    by (metis mset_zero_iff)
  ultimately show ?thesis by (simp add: average_seniority_def)
qed


lemma bit_length_lower: "0 < n \<Longrightarrow> 2 ^ (bit_length n - 1) \<le> n"
proof (induction n rule: bit_length.induct)
  case (1 n)
  show ?case
  proof (cases "n div 2 = 0")
    case True
    with "1.prems" have "n = 1" by (simp add: div_eq_0_iff) 
    then show ?thesis by (simp add: bit_length.simps)
  next
    case False
    with "1.IH" "1.prems" have ih: "2 ^ (bit_length (n div 2) - 1) \<le> n div 2" by simp
    from False have "0 < bit_length (n div 2)" by (simp add: bit_length.simps [of "n div 2"])
    then have "(2::nat) ^ bit_length (n div 2) = 2 * 2 ^ (bit_length (n div 2) - 1)"
      by (cases "bit_length (n div 2)") simp_all
    also have "\<dots> \<le> 2 * (n div 2)" using ih by simp
    also have "\<dots> \<le> n" by simp
    finally show ?thesis using "1.prems" by (simp add: bit_length.simps [of n])
  qed
qed

lemma round_half_even_err: "\<bar>of_int (round_half_even x) - x\<bar> \<le> 1 / 2"
proof -
  have "of_int \<lfloor>x\<rfloor> \<le> x" "x < of_int \<lfloor>x\<rfloor> + 1" by linarith+
  then show ?thesis by (auto simp: round_half_even_def Let_def)
qed

lemma pow2_pos: "0 < pow2 e"
  by (simp add: pow2_def)

lemma pow2_minus_52: "0 \<le> e \<Longrightarrow> pow2 (e - 52) = pow2 e / 2 ^ 52"
proof -
  assume e: "0 \<le> e"
  show ?thesis
  proof (cases "52 \<le> e")
    case True
    then have "nat e = nat (e - 52) + 52" by simp
    then have "(2::rat) ^ nat e = 2 ^ nat (e - 52) * 2 ^ 52"
      by (metis power_add)
    with True e show ?thesis by (simp add: pow2_def)
  next
    case False
    with e have "52 = nat (52 - e) + nat e" by simp
    then have "(2::rat) ^ 52 = 2 ^ nat (52 - e) * 2 ^ nat e"
      by (metis power_add)
    with False e show ?thesis by (simp add: pow2_def field_simps)
  qed
qed

lemma floor_log2_ge_1:
  assumes "1 \<le> q"
  shows "0 \<le> floor_log2 q" and "pow2 (floor_log2 q) \<le> q"
proof -
  let ?n = "nat \<lfloor>q\<rfloor>"
  from assms have n: "0 < ?n" by simp
  then have b: "0 < bit_length ?n" by (simp add: bit_length.simps [of ?n])
  with assms show "0 \<le> floor_log2 q" by (simp add: floor_log2_def)
  from b have "floor_log2 q = int (bit_length ?n - 1)"
    using assms by (simp add: floor_log2_def)
  then have "pow2 (floor_log2 q) = 2 ^ (bit_length ?n - 1)" by (simp add: pow2_def)
  also have "\<dots> = of_nat (2 ^ (bit_length ?n - 1))" by simp
  also have "\<dots> \<le> of_nat ?n" using bit_length_lower [OF n] by (simp only: of_nat_le_iff)
  also have "\<dots> = of_int \<lfloor>q\<rfloor>" using assms by simp
  also have "\<dots> \<le> q" by simp
  finally show "pow2 (floor_log2 q) \<le> q" .
qed


lemma round_to_double_err:
  assumes "1 \<le> q"
  shows "\<bar>round_to_double q - q\<bar> \<le> q / 2 ^ 53"
proof -
  let ?e = "floor_log2 q"
  define u where "u = pow2 ?e / 2 ^ 52"
  from floor_log2_ge_1 [OF assms] have e0: "0 \<le> ?e" and pe: "pow2 ?e \<le> q" by simp_all
  have u0: "0 < u" using pow2_pos [of ?e] by (simp add: u_def)
  from e0 have "max ?e (- 1022) = ?e" by simp
  with assms have r: "round_to_double q = of_int (round_half_even (q / u)) * u"
    by (simp add: round_to_double_def Let_def pow2_minus_52 [OF e0] u_def)
  have "\<bar>of_int (round_half_even (q / u)) * u - q\<bar>
          = u * \<bar>of_int (round_half_even (q / u)) - q / u\<bar>"
  proof -
    have "of_int (round_half_even (q / u)) * u - q
            = u * (of_int (round_half_even (q / u)) - q / u)"
      using u0 by (simp add: field_simps)
    then show ?thesis using u0 by (simp add: abs_mult)
  qed
  also have "\<dots> \<le> u * (1 / 2)"
    using round_half_even_err [of "q / u"] u0 by (intro mult_left_mono) simp_all
  also have "\<dots> = pow2 ?e / 2 ^ 53" by (simp add: u_def)
  also have "\<dots> \<le> q / 2 ^ 53" using pe by (simp add: divide_right_mono)
  finally show ?thesis using r by simp
qed

lemma sum_list_ge_length: "\<forall>x\<in>set xs. 1 \<le> x \<Longrightarrow> int (length xs) \<le> sum_list xs"
  by (induction xs) auto

lemma mean_ge_1:
  assumes "xs \<noteq> []" and "\<forall>x\<in>set xs. 1 \<le> x"
  shows "1 \<le> mean xs"
proof -
  from assms(1) have l: "0 < (of_int (int (length xs)) :: rat)" by simp
  from sum_list_ge_length [OF assms(2)]
  have "(of_int (int (length xs)) :: rat) \<le> of_int (sum_list xs)"
    by (simp only: of_int_le_iff)
  with l show ?thesis by (simp add: mean_def)
qed

lemma average_seniority_bound:
  assumes "xs \<noteq> []" and "\<forall>x\<in>set xs. 1 \<le> x"
      and "average_seniority xs = Inr (Some a)"
  shows "\<bar>a - mean xs\<bar> \<le> 1 / 200 + (mean xs + 1) / 2 ^ 51"
proof -
  let ?q = "mean xs"
  define d where "d = round_to_double ?q"
  define r :: rat where "r = of_int (round_half_even (d * 100)) / 100"
  have q1: "1 \<le> ?q" by (rule mean_ge_1 [OF assms(1,2)])
  from assms(1,3) have a: "a = round_to_double r"
    by (auto simp: average_seniority_def py_truediv_def py_round2_def mean_def d_def r_def
          Let_def split: if_splits sum.splits)
  have dq: "\<bar>d - ?q\<bar> \<le> ?q / 2 ^ 53"
    unfolding d_def by (rule round_to_double_err [OF q1])
  have p53: "(2::rat) ^ 53 = 9007199254740992" by simp
  have dq': "d - ?q \<le> ?q / 9007199254740992" "?q - d \<le> ?q / 9007199254740992"
    using dq unfolding p53 by linarith+
  have rd: "\<bar>r - d\<bar> \<le> 1 / 200"
  proof -
    have k: "r * 100 = of_int (round_half_even (d * 100))" by (simp add: r_def)
    from round_half_even_err [of "d * 100"] have "\<bar>r * 100 - d * 100\<bar> \<le> 1 / 2"
      by (simp only: k)
    then show ?thesis by linarith
  qed
  have r1: "1 \<le> r"
  proof -
    from dq' q1 have "199 / 200 < d" by simp
    then have "199 / 2 < d * 100" by simp
    with round_half_even_err [of "d * 100"]
    have "(99::rat) < of_int (round_half_even (d * 100))" by linarith
    then have "99 < round_half_even (d * 100)" by (simp only: of_int_less_iff of_int_numeral)
    then have "(100::rat) \<le> of_int (round_half_even (d * 100))" by simp
    then show ?thesis by (simp add: r_def)
  qed
  have ar: "\<bar>a - r\<bar> \<le> r / 2 ^ 53"
    unfolding a by (rule round_to_double_err [OF r1])
  have ar': "a - r \<le> r / 9007199254740992" "r - a \<le> r / 9007199254740992"
    using ar unfolding p53 by linarith+
  have rd': "r - d \<le> 1 / 200" "d - r \<le> 1 / 200"
    using rd by linarith+
  have "a - ?q \<le> 1 / 200 + (?q + 1) / 2251799813685248"
    using dq' rd' ar' q1 by (simp add: field_simps)
  moreover have "?q - a \<le> 1 / 200 + (?q + 1) / 2251799813685248"
    using dq' rd' ar' q1 by (simp add: field_simps)
  moreover have "(2::rat) ^ 51 = 2251799813685248" by simp
  ultimately show ?thesis by (simp add: abs_le_iff)
qed


lemma average_seniority_present:
  assumes "xs \<noteq> []" and "\<forall>x\<in>set xs. 1 \<le> x" and "mean xs \<le> 2 ^ 1023"
  shows "\<exists>a. average_seniority xs = Inr (Some a)"
proof -
  let ?q = "mean xs"
  have q1: "1 \<le> ?q" by (rule mean_ge_1 [OF assms(1,2)])
  have p53: "(2::rat) ^ 53 = 9007199254740992" by simp
  from round_to_double_err [OF q1]
  have "round_to_double ?q - ?q \<le> ?q / 9007199254740992"
    and "?q - round_to_double ?q \<le> ?q / 9007199254740992"
    unfolding p53 by linarith+
  with q1 have "0 \<le> round_to_double ?q" and "round_to_double ?q < 2 * ?q"
    by (simp_all add: field_simps)
  moreover from assms(3) have "2 * ?q \<le> 2 * 2 ^ 1023" by simp
  moreover have "(2::rat) * 2 ^ 1023 = 2 ^ 1024" by simp
  ultimately have "\<bar>round_to_double ?q\<bar> < 2 ^ 1024" by linarith
  moreover have "pow2 1024 = 2 ^ 1024" by (simp add: pow2_def)
  ultimately have "\<not> pow2 1024 \<le> \<bar>round_to_double ?q\<bar>" by simp
  with assms(1) show ?thesis
    by (simp add: average_seniority_def py_truediv_def mean_def Let_def)
qed

text \<open>
  Claim C4, as amended. The average is absent when no value was resolved, and is not
  absent otherwise. When values are present it is \<open>round(sum / len, 2)\<close> in double
  precision: the quotient rounded to the nearest double, that double rounded to two
  decimals with ties to even, and the double nearest to the result. It depends only on
  the multiset of values. For values that are at least 1 (as every resolved seniority
  is) it exists whenever the mean is at most \<open>2^1023\<close>, it is the double nearest to a
  number with two decimals, and it differs from the exact mean by at most 0.005 plus
  \<open>(mean + 1) / 2^51\<close>.
\<close>

theorem average_is_rounded_float_mean:
  "average_seniority [] = Inr None
   \<and> (xs \<noteq> [] \<longrightarrow>
        average_seniority xs \<noteq> Inr None
        \<and> (\<forall>q. py_truediv (sum_list xs) (int (length xs)) = Inr q
               \<longrightarrow> average_seniority xs = Inr (Some (py_round2 q))))
   \<and> (\<forall>ys. mset ys = mset xs \<longrightarrow> average_seniority ys = average_seniority xs)
   \<and> (xs \<noteq> [] \<and> (\<forall>x\<in>set xs. 1 \<le> x) \<and> mean xs \<le> 2 ^ 1023
        \<longrightarrow> (\<exists>a. average_seniority xs = Inr (Some a)))
   \<and> (\<forall>a. xs \<noteq> [] \<and> (\<forall>x\<in>set xs. 1 \<le> x) \<and> average_seniority xs = Inr (Some a)
        \<longrightarrow> (\<exists>k. a = round_to_double (of_int k / 100))
            \<and> \<bar>a - mean xs\<bar> \<le> 1 / 200 + (mean xs + 1) / 2 ^ 51)"
proof (intro conjI allI impI)
  show "average_seniority [] = Inr None" by (simp add: average_seniority_def)
next
  assume "xs \<noteq> []"
  then show "average_seniority xs \<noteq> Inr None"
    by (simp add: average_seniority_def split: sum.splits)
next
  fix q assume "xs \<noteq> []" "py_truediv (sum_list xs) (int (length xs)) = Inr q"
  then show "average_seniority xs = Inr (Some (py_round2 q))"
    by (simp add: average_seniority_def)
next
  fix ys assume "mset ys = mset xs"
  then show "average_seniority ys = average_seniority xs" by (rule average_seniority_mset)
next
  assume "xs \<noteq> [] \<and> (\<forall>x\<in>set xs. 1 \<le> x) \<and> mean xs \<le> 2 ^ 1023"
  then show "\<exists>a. average_seniority xs = Inr (Some a)"
    using average_seniority_present by blast
next
  fix a assume h: "xs \<noteq> [] \<and> (\<forall>x\<in>set xs. 1 \<le> x) \<and> average_seniority xs = Inr (Some a)"
  then show "\<exists>k. a = round_to_double (of_int k / 100)"
    by (auto simp: average_seniority_def py_round2_def split: if_splits sum.splits)
  from h show "\<bar>a - mean xs\<bar> \<le> 1 / 200 + (mean xs + 1) / 2 ^ 51"
    using average_seniority_bound by blast
qed

lemma average_samples:
  "average_seniority [1, 2] = Inr (Some (3 / 2))"
  "mean [1, 2] = 3 / 2"
  by code_simp+

theorem average_is_rounded_float_mean_witness:
  "average_seniority [] = Inr None
   \<and> average_seniority [1, 2] = Inr (Some (3 / 2))
   \<and> average_seniority [2, 1] = Inr (Some (3 / 2))
   \<and> \<bar>3 / 2 - mean [1, 2]\<bar> \<le> 1 / 200 + (mean [1, 2] + 1) / 2 ^ 51"
proof -
  note t = average_is_rounded_float_mean [of "[1, 2]"]
  have m: "mset [2, 1 :: int] = mset [1, 2]" by simp
  have h: "[1, 2 :: int] \<noteq> [] \<and> (\<forall>x\<in>set [1, 2 :: int]. 1 \<le> x)
           \<and> average_seniority [1, 2] = Inr (Some (3 / 2))"
    using average_samples(1) by simp
  from t have "average_seniority [] = Inr None" by blast
  moreover from t m have "average_seniority [2, 1] = average_seniority [1, 2]" by blast
  moreover from t h
  have "\<bar>3 / 2 - mean [1, 2]\<bar> \<le> 1 / 200 + (mean [1, 2] + 1) / 2 ^ 51" by blast
  ultimately show ?thesis using average_samples(1) by simp
qed

end
